theory Spec2Isabelle
  imports Main
begin

section \<open>Data model (lib/types.ts)\<close>

text \<open>
  The two sides of the sync. The source writes them as the string literals
  \<^verbatim>\<open>"notion"\<close> and \<^verbatim>\<open>"keep"\<close>; the spec calls them left and right.
\<close>

datatype origin = Notion | Keep

text \<open>
  \<^verbatim>\<open>interface SyncMapping\<close>. \<^verbatim>\<open>lastWriteTimestamp\<close> is a millisecond count.
  \<^verbatim>\<open>lastSyncedKeepUpdateTime\<close> is declared a string, but both handlers fill it from the
  optional field \<^verbatim>\<open>updateTime?\<close> of a Keep note through a non-null assertion that checks
  nothing at run time, so the stored value can be \<^verbatim>\<open>undefined\<close>: \<open>None\<close> here.
\<close>

record SyncMapping =
  notionPageId :: string
  keepNoteName :: string
  lastSyncedNotionEditedTime :: string
  lastSyncedKeepUpdateTime :: "string option"
  lastWriteOrigin :: origin
  lastWriteTimestamp :: int

text \<open>
  \<^verbatim>\<open>interface SyncState\<close>. \<^verbatim>\<open>mappings\<close> is a JavaScript object keyed by Notion page
  id. \<^verbatim>\<open>Object.keys\<close> lists string keys in insertion order (page ids are UUIDs, never
  array indices), so the object is an association list with distinct keys in that order.
\<close>

record SyncState =
  lastPolledAt :: int
  mappings :: "(string \<times> SyncMapping) list"

text \<open>Notion page properties, in the three shapes lib/mapping.ts builds.\<close>

datatype prop_value = Title string | RichText string | Checkbox bool

type_synonym notion_props = "(string \<times> prop_value) list"

record NotionPage =
  page_id :: string
  last_edited_time :: string
  properties :: notion_props

text \<open>\<^verbatim>\<open>KeepNote.body\<close>: an optional text and an optional checklist.\<close>

record KeepBody =
  body_text :: "string option"
  body_list :: "(string \<times> bool) list option"

record KeepNote =
  name :: string
  title :: "string option"
  body :: "KeepBody option"
  updateTime :: "string option"
  createTime :: "string option"
  trashed :: "bool option"

text \<open>\<^verbatim>\<open>Partial<KeepNote>\<close> as \<^verbatim>\<open>notionToKeep\<close> builds it: a title and a body.\<close>

record KeepNoteFields =
  fields_title :: "string option"
  fields_body :: "KeepBody option"

section \<open>The world outside the handlers\<close>

text \<open>
  Calls that leave the process are recorded in the order they are issued, whether or not
  they succeed: a handler has written to the other side exactly when this log grows.
\<close>

datatype remote_write =
    UpdateNotionPage string notion_props
  | CreateNotionPage string notion_props
  | UpdateKeepNote string KeepNoteFields
  | CreateKeepNote KeepNoteFields

text \<open>
  The mutable world: the KV store, the wall clock and the log of remote writes.

  The KV store holds one record under \<^verbatim>\<open>"sync:state"\<close> (\<open>kv_state\<close>) and one record
  per page id under \<^verbatim>\<open>"sync:mapping:" + id\<close> (\<open>kv_mapping\<close>, keyed by the id: the prefix
  makes the two key families disjoint and the key injective in the id).
  Every KV call may reject: \<open>kv_faults\<close> is the schedule of the calls still to come,
  \<open>True\<close> for a call that throws; past its end every call succeeds.
  \<^verbatim>\<open>Date.now()\<close> returns \<open>clock w (ticks w)\<close> and advances \<open>ticks\<close>, so successive
  readings are independent.
\<close>

record world =
  kv_state :: "SyncState option"
  kv_mapping :: "string \<rightharpoonup> SyncMapping"
  kv_faults :: "bool list"
  clock :: "nat \<Rightarrow> int"
  ticks :: nat
  writes :: "remote_write list"

text \<open>An awaited call either throws an error (its message, \<open>Inl\<close>) or returns.\<close>

type_synonym 'a io = "world \<Rightarrow> (string + 'a) \<times> world"

definition and_then :: "'a io \<Rightarrow> ('a \<Rightarrow> 'b io) \<Rightarrow> 'b io" where
  "and_then m f w = (case m w of (Inl e, w') \<Rightarrow> (Inl e, w') | (Inr x, w') \<Rightarrow> f x w')"

definition Date_now :: "world \<Rightarrow> int \<times> world" where
  "Date_now w = (clock w (ticks w), w\<lparr>ticks := Suc (ticks w)\<rparr>)"

definition kv_error :: string where
  "kv_error = ''KV request failed''"

text \<open>One KV round trip: consume the next entry of the fault schedule.\<close>

definition kv_call :: "(world \<Rightarrow> 'a \<times> world) \<Rightarrow> 'a io" where
  "kv_call f w =
     (case kv_faults w of
        [] \<Rightarrow> (case f w of (x, w') \<Rightarrow> (Inr x, w'))
      | fault # rest \<Rightarrow>
          (if fault then (Inl kv_error, w\<lparr>kv_faults := rest\<rparr>)
           else (case f (w\<lparr>kv_faults := rest\<rparr>) of (x, w') \<Rightarrow> (Inr x, w'))))"

section \<open>Sync state management (lib/sync-state.ts)\<close>

definition SYNC_STATE_KEY :: string where
  "SYNC_STATE_KEY = ''sync:state''"

definition MAPPING_KEY_PREFIX :: string where
  "MAPPING_KEY_PREFIX = ''sync:mapping:''"

definition mapping_key :: "string \<Rightarrow> string" where
  "mapping_key pageId = MAPPING_KEY_PREFIX @ pageId"

definition getSyncState :: "SyncState io" where
  "getSyncState =
     kv_call (\<lambda>w. (case kv_state w of
                      None \<Rightarrow> \<lparr>lastPolledAt = 0, mappings = []\<rparr>
                    | Some state \<Rightarrow> state, w))"

definition set_sync_state :: "SyncState \<Rightarrow> unit io" where
  "set_sync_state state = kv_call (\<lambda>w. ((), w\<lparr>kv_state := Some state\<rparr>))"

definition updateLastPolled :: "int \<Rightarrow> unit io" where
  "updateLastPolled timestamp =
     and_then getSyncState (\<lambda>state. set_sync_state (state\<lparr>lastPolledAt := timestamp\<rparr>))"

definition getMapping :: "string \<Rightarrow> SyncMapping option io" where
  "getMapping pageId = kv_call (\<lambda>w. (kv_mapping w pageId, w))"

text \<open>
  \<^verbatim>\<open>Object.keys(state.mappings).find(id => state.mappings[id].keepNoteName === keepNoteName)\<close>:
  the first key, in key order, whose entry carries the name.
\<close>

definition find_page_id :: "(string \<times> SyncMapping) list \<Rightarrow> string \<Rightarrow> string option" where
  "find_page_id ms keepName =
     map_option fst (find (\<lambda>(pageId, m). keepNoteName m = keepName) ms)"

text \<open>
  The scan runs over the state record; the mapping returned is then read from the page's
  own record. \<^verbatim>\<open>!notionPageId\<close> is also true of the empty string.
\<close>

definition getMappingByKeepName :: "string \<Rightarrow> SyncMapping option io" where
  "getMappingByKeepName keepName =
     and_then getSyncState (\<lambda>state.
       case find_page_id (mappings state) keepName of
         None \<Rightarrow> (\<lambda>w. (Inr None, w))
       | Some pageId \<Rightarrow>
           if pageId = [] then (\<lambda>w. (Inr None, w)) else getMapping pageId)"

definition getAllMappings :: "SyncMapping list io" where
  "getAllMappings = and_then getSyncState (\<lambda>state w. (Inr (map snd (mappings state)), w))"

text \<open>
  \<^verbatim>\<open>obj[k] = v\<close> on an object: an existing key keeps its place, a new one goes last.
\<close>

fun assign :: "(string \<times> 'v) list \<Rightarrow> string \<Rightarrow> 'v \<Rightarrow> (string \<times> 'v) list" where
  "assign [] k v = [(k, v)]"
| "assign ((k', v') # kvs) k v = (if k' = k then (k, v) # kvs else (k', v') # assign kvs k v)"

definition upsertMapping :: "SyncMapping \<Rightarrow> unit io" where
  "upsertMapping mapping =
     and_then (kv_call (\<lambda>w. ((), w\<lparr>kv_mapping := (kv_mapping w)(notionPageId mapping \<mapsto> mapping)\<rparr>)))
       (\<lambda>_. and_then getSyncState (\<lambda>state.
          set_sync_state
            (state\<lparr>mappings := assign (mappings state) (notionPageId mapping) mapping\<rparr>)))"

definition deleteMapping :: "string \<Rightarrow> unit io" where
  "deleteMapping pageId =
     and_then (kv_call (\<lambda>w. ((), w\<lparr>kv_mapping := (kv_mapping w)(pageId := None)\<rparr>)))
       (\<lambda>_. and_then getSyncState (\<lambda>state.
          set_sync_state
            (state\<lparr>mappings := filter (\<lambda>(k, _). k \<noteq> pageId) (mappings state)\<rparr>)))"

text \<open>
  \<^verbatim>\<open>shouldSkipDueToCooldown(mapping, origin, cooldownMs)\<close>. The clock is read only on the
  path that reaches \<^verbatim>\<open>Date.now()\<close>.
\<close>

definition shouldSkipDueToCooldown ::
  "SyncMapping option \<Rightarrow> origin \<Rightarrow> int \<Rightarrow> world \<Rightarrow> bool \<times> world" where
  "shouldSkipDueToCooldown mapping orig cooldownMs w =
     (case mapping of
        None \<Rightarrow> (False, w)
      | Some m \<Rightarrow>
          if lastWriteOrigin m \<noteq> orig then (False, w)
          else (case Date_now w of (now, w') \<Rightarrow>
                  (now - lastWriteTimestamp m < cooldownMs, w')))"

definition default_cooldown :: int where
  "default_cooldown = 30000"

section \<open>Collaborators\<close>

text \<open>
  What the handlers reach through the network or the JavaScript runtime, as parameters:
  the two remote APIs (lib/keep-client.ts and lib/notion-client.ts end in HTTP calls), the
  two translators of lib/mapping.ts (pure functions of the document, whose field rules no
  property below depends on), \<^verbatim>\<open>new Date(s).getTime()\<close> (\<open>None\<close> is \<^verbatim>\<open>NaN\<close>), the HMAC
  of the webhook body and the process environment. \<open>Inl\<close> is a thrown error's message.
\<close>

record env =
  listKeepNotes :: "string + KeepNote list"
  keepToNotion :: "KeepNote \<Rightarrow> string + notion_props"
  notionToKeep :: "NotionPage \<Rightarrow> string + KeepNoteFields"
  getNotionPage :: "string \<Rightarrow> string + NotionPage"
  updateNotionPage :: "string \<Rightarrow> notion_props \<Rightarrow> string + NotionPage"
  createNotionPage :: "string \<Rightarrow> notion_props \<Rightarrow> string + NotionPage"
  updateKeepNote :: "string \<Rightarrow> KeepNoteFields \<Rightarrow> string + KeepNote"
  createKeepNote :: "KeepNoteFields \<Rightarrow> string + KeepNote"
  parseDate :: "string \<Rightarrow> int option"
  hmac_sha256_hex :: "string \<Rightarrow> string \<Rightarrow> string"
  NOTION_DATABASE_ID :: string
  NOTION_WEBHOOK_SECRET :: string
  VERCEL_CRON_SECRET :: "string option"
  NODE_ENV :: "string option"

text \<open>\<^verbatim>\<open>new Date(x).getTime()\<close> of an optional string: \<^verbatim>\<open>undefined\<close> gives \<^verbatim>\<open>NaN\<close>.\<close>

definition getTime :: "env \<Rightarrow> string option \<Rightarrow> int option" where
  "getTime e x = (case x of None \<Rightarrow> None | Some s \<Rightarrow> parseDate e s)"

text \<open>\<^verbatim>\<open>a <= b\<close> on numbers: false as soon as one side is \<^verbatim>\<open>NaN\<close>.\<close>

definition js_le :: "int option \<Rightarrow> int option \<Rightarrow> bool" where
  "js_le a b = (case a of None \<Rightarrow> False | Some x \<Rightarrow> (case b of None \<Rightarrow> False | Some y \<Rightarrow> x \<le> y))"

text \<open>A remote write: logged when issued, then answered by the remote side.\<close>

definition remote :: "remote_write \<Rightarrow> (string + 'a) \<Rightarrow> 'a io" where
  "remote call answer w = (answer, w\<lparr>writes := writes w @ [call]\<rparr>)"

text \<open>\<^verbatim>\<open>upsertKeepNote\<close> (lib/keep-client.ts): update when a truthy name is given.\<close>

definition upsertKeepNote :: "env \<Rightarrow> string option \<Rightarrow> KeepNoteFields \<Rightarrow> KeepNote io" where
  "upsertKeepNote e existingNoteName note =
     (case existingNoteName of
        None \<Rightarrow> remote (CreateKeepNote note) (createKeepNote e note)
      | Some noteName \<Rightarrow>
          if noteName \<noteq> [] then remote (UpdateKeepNote noteName note) (updateKeepNote e noteName note)
          else remote (CreateKeepNote note) (createKeepNote e note))"

text \<open>\<^verbatim>\<open>buildDefaultNotionProperties\<close> (lib/mapping.ts).\<close>

definition buildDefaultNotionProperties :: "string \<Rightarrow> string \<Rightarrow> notion_props" where
  "buildDefaultNotionProperties ttl content = [(''Name'', Title ttl), (''Notes'', RichText content)]"

section \<open>The Keep polling job (api/cron/poll-keep.ts)\<close>

record summary =
  processed :: nat
  created :: nat
  updated :: nat
  skipped :: nat
  errors :: "(string \<times> string) list"

text \<open>
  How the loop body leaves a note: by one of the four \<^verbatim>\<open>continue\<close> statements, by the end
  of the \<^verbatim>\<open>try\<close> block after a create or an update, or through the \<^verbatim>\<open>catch\<close> block.
\<close>

datatype outcome =
    Ignored
  | SkippedCooldown
  | SkippedUnchanged
  | AppliedCreated
  | AppliedUpdated
  | Failed string

text \<open>The \<^verbatim>\<open>catch\<close> block of the loop body.\<close>

definition caught :: "KeepNote \<Rightarrow> string \<Rightarrow> summary \<Rightarrow> summary" where
  "caught note msg s =
     s\<lparr>errors := errors s @ [(if name note \<noteq> [] then name note else ''unknown'', msg)]\<rparr>"

text \<open>\<^verbatim>\<open>currentUpdateTime <= lastSyncedTime\<close>, for an existing mapping.\<close>

definition note_unchanged :: "env \<Rightarrow> SyncMapping \<Rightarrow> KeepNote \<Rightarrow> bool" where
  "note_unchanged e m note =
     js_le (getTime e (updateTime note)) (getTime e (lastSyncedKeepUpdateTime m))"

text \<open>\<^verbatim>\<open>note.title || "Untitled"\<close> and \<^verbatim>\<open>note.body?.text?.text || ""\<close>.\<close>

definition title_or_untitled :: "KeepNote \<Rightarrow> string" where
  "title_or_untitled note =
     (case title note of None \<Rightarrow> ''Untitled'' | Some t \<Rightarrow> if t \<noteq> [] then t else ''Untitled'')"

definition body_text_or_empty :: "KeepNote \<Rightarrow> string" where
  "body_text_or_empty note =
     (case body note of
        None \<Rightarrow> []
      | Some b \<Rightarrow> (case body_text b of None \<Rightarrow> [] | Some t \<Rightarrow> t))"

text \<open>
  Lines 95 to 123: update the mapped page, or create one. The counter moves after the
  awaited call has returned, so a failed call leaves the counters alone.
\<close>

definition write_notion ::
  "env \<Rightarrow> SyncMapping option \<Rightarrow> KeepNote \<Rightarrow> notion_props \<Rightarrow> summary \<Rightarrow> world
     \<Rightarrow> (string + NotionPage \<times> string \<times> outcome) \<times> summary \<times> world" where
  "write_notion e existingMapping note notionProps s w =
     (case existingMapping of
        Some m \<Rightarrow>
          (case remote (UpdateNotionPage (notionPageId m) notionProps)
                  (updateNotionPage e (notionPageId m) notionProps) w of
             (Inl err, w') \<Rightarrow> (Inl err, s, w')
           | (Inr notionPage, w') \<Rightarrow>
               (Inr (notionPage, notionPageId m, AppliedUpdated), s\<lparr>updated := updated s + 1\<rparr>, w'))
      | None \<Rightarrow>
          (let props = (if notionProps \<noteq> [] then notionProps
                        else buildDefaultNotionProperties (title_or_untitled note)
                               (body_text_or_empty note))
           in case remote (CreateNotionPage (NOTION_DATABASE_ID e) props)
                     (createNotionPage e (NOTION_DATABASE_ID e) props) w of
                (Inl err, w') \<Rightarrow> (Inl err, s, w')
              | (Inr notionPage, w') \<Rightarrow>
                  (Inr (notionPage, page_id notionPage, AppliedCreated),
                   s\<lparr>created := created s + 1\<rparr>, w')))"

text \<open>Lines 125 to 136: build the mapping (reading the clock) and store it.\<close>

definition record_mapping ::
  "KeepNote \<Rightarrow> NotionPage \<Rightarrow> string \<Rightarrow> outcome \<Rightarrow> summary \<Rightarrow> world
     \<Rightarrow> outcome \<times> summary \<times> world" where
  "record_mapping note notionPage pageId out s w =
     (case Date_now w of (now, w1) \<Rightarrow>
        (case upsertMapping
                \<lparr>notionPageId = pageId,
                 keepNoteName = name note,
                 lastSyncedNotionEditedTime = last_edited_time notionPage,
                 lastSyncedKeepUpdateTime = updateTime note,
                 lastWriteOrigin = Keep,
                 lastWriteTimestamp = now\<rparr> w1 of
           (Inl err, w2) \<Rightarrow> (Failed err, caught note err s, w2)
         | (Inr _, w2) \<Rightarrow> (out, s\<lparr>processed := processed s + 1\<rparr>, w2)))"

text \<open>The body of the \<^verbatim>\<open>for\<close> loop, lines 54 to 143, for one note.\<close>

definition process_note :: "env \<Rightarrow> KeepNote \<Rightarrow> summary \<Rightarrow> world \<Rightarrow> outcome \<times> summary \<times> world" where
  "process_note e note s w =
     (if trashed note = Some True then (Ignored, s, w)
      else if name note = [] then (Ignored, s, w)
      else
        (case getMappingByKeepName (name note) w of
           (Inl err, w1) \<Rightarrow> (Failed err, caught note err s, w1)
         | (Inr existingMapping, w1) \<Rightarrow>
             (case shouldSkipDueToCooldown existingMapping Keep default_cooldown w1 of
                (skip, w2) \<Rightarrow>
                  if skip then (SkippedCooldown, s\<lparr>skipped := skipped s + 1\<rparr>, w2)
                  else if (case existingMapping of None \<Rightarrow> False
                           | Some m \<Rightarrow> note_unchanged e m note)
                  then (SkippedUnchanged, s\<lparr>skipped := skipped s + 1\<rparr>, w2)
                  else
                    (case keepToNotion e note of
                       Inl err \<Rightarrow> (Failed err, caught note err s, w2)
                     | Inr notionProps \<Rightarrow>
                         (case write_notion e existingMapping note notionProps s w2 of
                            (Inl err, s3, w3) \<Rightarrow> (Failed err, caught note err s3, w3)
                          | (Inr (notionPage, pageId, out), s3, w3) \<Rightarrow>
                              record_mapping note notionPage pageId out s3 w3)))))"

text \<open>
  The \<^verbatim>\<open>for\<close> loop over the notes. Besides the counters and the world it returns the
  outcome of every note, in order.
\<close>

fun poll_loop :: "env \<Rightarrow> KeepNote list \<Rightarrow> summary \<Rightarrow> world \<Rightarrow> outcome list \<times> summary \<times> world" where
  "poll_loop e [] s w = ([], s, w)"
| "poll_loop e (note # notes) s w =
     (case process_note e note s w of
        (out, s', w') \<Rightarrow>
          (case poll_loop e notes s' w' of (outs, s'', w'') \<Rightarrow> (out # outs, s'', w'')))"

definition empty_summary :: summary where
  "empty_summary = \<lparr>processed = 0, created = 0, updated = 0, skipped = 0, errors = []\<rparr>"

record poll_request =
  poll_method :: string
  authorization :: "string option"

datatype poll_response =
    PollMethodNotAllowed
  | PollUnauthorized
  | PollComplete summary
  | PollInternalError string

text \<open>\<^verbatim>\<open>`Bearer ${process.env.VERCEL_CRON_SECRET}`\<close>: an unset variable prints as "undefined".\<close>

definition expected_bearer :: "env \<Rightarrow> string" where
  "expected_bearer e =
     ''Bearer '' @ (case VERCEL_CRON_SECRET e of None \<Rightarrow> ''undefined'' | Some secret \<Rightarrow> secret)"

definition truthy :: "string option \<Rightarrow> bool" where
  "truthy x = (case x of None \<Rightarrow> False | Some s \<Rightarrow> s \<noteq> [])"

text \<open>The \<^verbatim>\<open>try\<close> block of the handler, lines 38 to 163.\<close>

definition poll_batch :: "env \<Rightarrow> world \<Rightarrow> poll_response \<times> world" where
  "poll_batch e w =
     (case listKeepNotes e of
        Inl err \<Rightarrow> (PollInternalError err, w)
      | Inr notes \<Rightarrow>
          (case poll_loop e notes empty_summary w of
             (outs, s, w1) \<Rightarrow>
               (case Date_now w1 of (now, w2) \<Rightarrow>
                  (case updateLastPolled now w2 of
                     (Inl err, w3) \<Rightarrow> (PollInternalError err, w3)
                   | (Inr _, w3) \<Rightarrow> (PollComplete s, w3)))))"

definition poll_handler :: "env \<Rightarrow> poll_request \<Rightarrow> world \<Rightarrow> poll_response \<times> world" where
  "poll_handler e req w =
     (if poll_method req \<noteq> ''GET'' then (PollMethodNotAllowed, w)
      else if authorization req \<noteq> Some (expected_bearer e)
              \<and> NODE_ENV e = Some ''production'' \<and> truthy (authorization req)
      then (PollUnauthorized, w)
      else poll_batch e w)"

section \<open>The Notion webhook (api/notion/webhook.ts)\<close>

text \<open>
  The request: its method, the \<^verbatim>\<open>notion-signature\<close> header, \<^verbatim>\<open>JSON.stringify(req.body)\<close>
  and the three fields of the body the handler reads.
\<close>

record webhook_request =
  wh_method :: string
  notion_signature :: "string option"
  body_json :: string
  payload_object :: string
  payload_id :: string
  payload_type :: string

datatype webhook_response =
    MethodNotAllowed
  | MissingSignature
  | InvalidSignature
  | NotPageEvent
  | PageDeletedSkipping
  | SkippedDueToCooldown
  | SyncedToKeep string
  | InternalServerError string

text \<open>The HTTP status the handler sends with each response.\<close>

fun status_code :: "webhook_response \<Rightarrow> nat" where
  "status_code MethodNotAllowed = 405"
| "status_code MissingSignature = 401"
| "status_code InvalidSignature = 401"
| "status_code NotPageEvent = 200"
| "status_code PageDeletedSkipping = 200"
| "status_code SkippedDueToCooldown = 200"
| "status_code (SyncedToKeep _) = 200"
| "status_code (InternalServerError _) = 500"

text \<open>
  \<^verbatim>\<open>verifyNotionWebhook\<close> (lib/notion-client.ts). \<^verbatim>\<open>crypto.timingSafeEqual\<close> throws on
  buffers of different lengths.
\<close>

definition verifyNotionWebhook :: "env \<Rightarrow> string \<Rightarrow> string \<Rightarrow> string \<Rightarrow> string + bool" where
  "verifyNotionWebhook e bdy sig secret =
     (let expectedSignature = hmac_sha256_hex e secret bdy
      in if length sig \<noteq> length expectedSignature
         then Inl ''Input buffers must have the same byte length''
         else Inr (sig = expectedSignature))"

text \<open>\<^verbatim>\<open>existingMapping?.keepNoteName || null\<close>.\<close>

definition existing_note_name :: "SyncMapping option \<Rightarrow> string option" where
  "existing_note_name existingMapping =
     (case existingMapping of
        None \<Rightarrow> None
      | Some m \<Rightarrow> if keepNoteName m \<noteq> [] then Some (keepNoteName m) else None)"

text \<open>Lines 67 to 106, with the \<^verbatim>\<open>catch\<close> block of lines 107 to 113.\<close>

definition sync_page :: "env \<Rightarrow> string \<Rightarrow> world \<Rightarrow> webhook_response \<times> world" where
  "sync_page e pageId w =
     (case getNotionPage e pageId of
        Inl err \<Rightarrow> (InternalServerError err, w)
      | Inr page \<Rightarrow>
          (case getMapping pageId w of
             (Inl err, w1) \<Rightarrow> (InternalServerError err, w1)
           | (Inr existingMapping, w1) \<Rightarrow>
               (case shouldSkipDueToCooldown existingMapping Notion default_cooldown w1 of
                  (skip, w2) \<Rightarrow>
                    if skip then (SkippedDueToCooldown, w2)
                    else
                      (case notionToKeep e page of
                         Inl err \<Rightarrow> (InternalServerError err, w2)
                       | Inr keepNote \<Rightarrow>
                           (case upsertKeepNote e (existing_note_name existingMapping) keepNote w2 of
                              (Inl err, w3) \<Rightarrow> (InternalServerError err, w3)
                            | (Inr savedNote, w3) \<Rightarrow>
                                (case Date_now w3 of (now, w4) \<Rightarrow>
                                   (case upsertMapping
                                           \<lparr>notionPageId = pageId,
                                            keepNoteName = name savedNote,
                                            lastSyncedNotionEditedTime = last_edited_time page,
                                            lastSyncedKeepUpdateTime = updateTime savedNote,
                                            lastWriteOrigin = Notion,
                                            lastWriteTimestamp = now\<rparr> w4 of
                                      (Inl err, w5) \<Rightarrow> (InternalServerError err, w5)
                                    | (Inr _, w5) \<Rightarrow> (SyncedToKeep (name savedNote), w5))))))))"

definition webhook_handler :: "env \<Rightarrow> webhook_request \<Rightarrow> world \<Rightarrow> webhook_response \<times> world" where
  "webhook_handler e req w =
     (if wh_method req \<noteq> ''POST'' then (MethodNotAllowed, w)
      else
        (case notion_signature req of
           None \<Rightarrow> (MissingSignature, w)
         | Some sig \<Rightarrow>
             if sig = [] then (MissingSignature, w)
             else
               (case verifyNotionWebhook e (body_json req) sig (NOTION_WEBHOOK_SECRET e) of
                  Inl err \<Rightarrow> (InternalServerError err, w)
                | Inr isValid \<Rightarrow>
                    if \<not> isValid then (InvalidSignature, w)
                    else if payload_object req \<noteq> ''page'' then (NotPageEvent, w)
                    else if payload_type req = ''page_deleted'' then (PageDeletedSkipping, w)
                    else sync_page e (payload_id req) w)))"

section \<open>Concrete inputs\<close>

text \<open>
  A world whose clock reads \<open>t\<close>, then \<open>t + 1\<close>, and so on, with an empty store, and a
  mapping of page \<^verbatim>\<open>doc1\<close> to note \<^verbatim>\<open>notes/1\<close> last written at time \<open>100000\<close>.
\<close>

definition world_at :: "int \<Rightarrow> world" where
  "world_at t =
     \<lparr>kv_state = None, kv_mapping = (\<lambda>_. None), kv_faults = [],
      clock = (\<lambda>n. t + int n), ticks = 0, writes = []\<rparr>"

definition doc1_mapping :: "origin \<Rightarrow> SyncMapping" where
  "doc1_mapping orig =
     \<lparr>notionPageId = ''doc1'', keepNoteName = ''notes/1'',
      lastSyncedNotionEditedTime = ''t1'', lastSyncedKeepUpdateTime = Some ''t1'',
      lastWriteOrigin = orig, lastWriteTimestamp = 100000\<rparr>"

definition demo_env :: env where
  "demo_env =
     \<lparr>listKeepNotes = Inr [],
      keepToNotion =
        (\<lambda>note. case title note of None \<Rightarrow> Inr [] | Some t \<Rightarrow> Inr [(''Name'', Title t)]),
      notionToKeep = (\<lambda>page. Inr \<lparr>fields_title = Some ''Untitled'', fields_body = None\<rparr>),
      getNotionPage =
        (\<lambda>pageId. Inr \<lparr>page_id = pageId, last_edited_time = ''t1'', properties = []\<rparr>),
      updateNotionPage =
        (\<lambda>pageId props. Inr \<lparr>page_id = pageId, last_edited_time = ''t1'', properties = props\<rparr>),
      createNotionPage =
        (\<lambda>db props.
           Inr \<lparr>page_id = ''doc'' @ (case props of (_, Title t) # _ \<Rightarrow> t | _ \<Rightarrow> []),
                last_edited_time = ''t1'', properties = props\<rparr>),
      updateKeepNote =
        (\<lambda>noteName note.
           Inr \<lparr>name = noteName, title = fields_title note, body = fields_body note,
                updateTime = Some ''t1'', createTime = None, trashed = None\<rparr>),
      createKeepNote =
        (\<lambda>note.
           Inr \<lparr>name = ''notes/1'', title = fields_title note, body = fields_body note,
                updateTime = Some ''t1'', createTime = None, trashed = None\<rparr>),
      parseDate = (\<lambda>s. if s = ''t1'' then Some 1000 else if s = ''t2'' then Some 2000 else None),
      hmac_sha256_hex = (\<lambda>secret bdy. ''5f2d''),
      NOTION_DATABASE_ID = ''db'',
      NOTION_WEBHOOK_SECRET = ''whsec'',
      VERCEL_CRON_SECRET = None,
      NODE_ENV = None\<rparr>"

text \<open>The note \<^verbatim>\<open>notes/n\<close>, titled \<open>n\<close>, last updated at \<open>upd\<close>.\<close>

definition keep_note :: "string \<Rightarrow> string \<Rightarrow> KeepNote" where
  "keep_note n upd =
     \<lparr>name = ''notes/'' @ n, title = Some n, body = None, updateTime = Some upd,
      createTime = None, trashed = None\<rparr>"

text \<open>The store after one successful \<^verbatim>\<open>upsertMapping\<close>, with the clock at \<open>t\<close>.\<close>

definition world_with :: "SyncMapping \<Rightarrow> int \<Rightarrow> world" where
  "world_with m t = snd (upsertMapping m (world_at t))"

text \<open>A signed page notification of the given kind.\<close>

definition page_event :: "string \<Rightarrow> string \<Rightarrow> webhook_request" where
  "page_event kind pageId =
     \<lparr>wh_method = ''POST'', notion_signature = Some ''5f2d'', body_json = ''{}'',
      payload_object = ''page'', payload_id = pageId, payload_type = kind\<rparr>"

text \<open>Environments in which one of the remote sides rejects every update.\<close>

definition notion_down :: env where
  "notion_down = demo_env\<lparr>updateNotionPage := (\<lambda>pageId props. Inl ''Notion API error'')\<rparr>"

definition keep_down :: env where
  "keep_down = demo_env\<lparr>updateKeepNote := (\<lambda>noteName note. Inl ''Keep API error: 503'')\<rparr>"






text \<open>A poll that lists the single note \<^verbatim>\<open>notes/1\<close>.\<close>

definition one_note :: env where
  "one_note = demo_env\<lparr>listKeepNotes := Inr [keep_note ''1'' ''t1'']\<rparr>"

section \<open>Vocabulary of the properties\<close>

text \<open>The remote side answered the call with an error.\<close>

definition write_failed :: "env \<Rightarrow> remote_write \<Rightarrow> bool" where
  "write_failed e call =
     (case call of
        UpdateNotionPage pageId props \<Rightarrow> isl (updateNotionPage e pageId props)
      | CreateNotionPage db props \<Rightarrow> isl (createNotionPage e db props)
      | UpdateKeepNote noteName note \<Rightarrow> isl (updateKeepNote e noteName note)
      | CreateKeepNote note \<Rightarrow> isl (createKeepNote e note))"

text \<open>The note went through a create or an update and its mapping was stored.\<close>

definition applied :: "outcome \<Rightarrow> bool" where
  "applied out = (out = AppliedCreated \<or> out = AppliedUpdated)"

text \<open>What one note may do to the counters, by the way the loop body left it.\<close>

fun counted :: "outcome \<Rightarrow> summary \<Rightarrow> summary \<Rightarrow> KeepNote \<Rightarrow> bool" where
  "counted Ignored s s' nt = (s' = s)"
| "counted SkippedCooldown s s' nt = (s' = s\<lparr>skipped := skipped s + 1\<rparr>)"
| "counted SkippedUnchanged s s' nt = (s' = s\<lparr>skipped := skipped s + 1\<rparr>)"
| "counted AppliedCreated s s' nt =
     (s' = s\<lparr>processed := processed s + 1, created := created s + 1\<rparr>)"
| "counted AppliedUpdated s s' nt =
     (s' = s\<lparr>processed := processed s + 1, updated := updated s + 1\<rparr>)"
| "counted (Failed msg) s s' nt =
     (errors s' = errors s @ [(name nt, msg)] \<and> processed s' = processed s
      \<and> skipped s' = skipped s \<and> created s \<le> created s' \<and> updated s \<le> updated s'
      \<and> created s' + updated s' \<le> created s + updated s + 1)"

text \<open>The relation between the counters that every batch keeps.\<close>

definition balanced :: "summary \<Rightarrow> bool" where
  "balanced s = (processed s \<le> created s + updated s
                 \<and> created s + updated s \<le> processed s + length (errors s))"

text \<open>The state record as \<^verbatim>\<open>getSyncState\<close> reads it.\<close>

definition state_of :: "world \<Rightarrow> SyncState" where
  "state_of w = (case kv_state w of None \<Rightarrow> \<lparr>lastPolledAt = 0, mappings = []\<rparr> | Some st \<Rightarrow> st)"

text \<open>What \<^verbatim>\<open>getMappingByKeepName\<close> returns when no KV call fails.\<close>

definition lookup_by_name :: "world \<Rightarrow> string \<Rightarrow> SyncMapping option" where
  "lookup_by_name w keepName =
     (case find_page_id (mappings (state_of w)) keepName of
        None \<Rightarrow> None
      | Some pageId \<Rightarrow> if pageId = [] then None else kv_mapping w pageId)"

text \<open>
  The state record and the per-page records agree: the keys of the state record are
  distinct (they are the keys of an object), and every entry sits under a non-empty page
  id, which is also the id inside the mapping and the key of an equal per-page record.
\<close>

definition store_consistent :: "world \<Rightarrow> bool" where
  "store_consistent w =
     (distinct (map fst (mappings (state_of w)))
      \<and> list_all
            (\<lambda>(pageId, m). pageId \<noteq> [] \<and> kv_mapping w pageId = Some m \<and> notionPageId m = pageId)
            (mappings (state_of w)))"

text \<open>The store after an \<^verbatim>\<open>upsertMapping\<close> in which no KV call fails.\<close>

definition stored :: "SyncMapping \<Rightarrow> world \<Rightarrow> world" where
  "stored m w =
     w\<lparr>kv_mapping := (kv_mapping w)(notionPageId m \<mapsto> m),
       kv_state := Some ((state_of w)\<lparr>mappings := assign (mappings (state_of w)) (notionPageId m) m\<rparr>)\<rparr>"

text \<open>A clock that advances 40000 ms between two readings.\<close>

definition slow_world :: world where
  "slow_world = (world_at 0)\<lparr>clock := (\<lambda>n. int n * 40000)\<rparr>"

text \<open>
  \<^verbatim>\<open>Array.prototype.find\<close> with its calls of the predicate counted: the predicate is called
  once per element, in order, up to and including the first element that satisfies it.
\<close>

fun find_counted :: "('a \<Rightarrow> bool) \<Rightarrow> 'a list \<Rightarrow> 'a option \<times> nat" where
  "find_counted P [] = (None, 0)"
| "find_counted P (x # xs) =
     (if P x then (Some x, 1) else (case find_counted P xs of (r, n) \<Rightarrow> (r, Suc n)))"

text \<open>The name comparisons made by the scan of \<^verbatim>\<open>getMappingByKeepName\<close> over a state record.\<close>

definition lookup_comparisons :: "(string \<times> SyncMapping) list \<Rightarrow> string \<Rightarrow> nat" where
  "lookup_comparisons ms keepName =
     snd (find_counted (\<lambda>(pageId, m). keepNoteName m = keepName) ms)"

text \<open>
  \<^verbatim>\<open>getMappingByKeepName\<close> once more, statement by statement, returning next to its result
  the number of times the predicate \<^verbatim>\<open>state.mappings[id].keepNoteName === keepName\<close> was
  called. A \<^verbatim>\<open>getSyncState\<close> that throws ends the call before any comparison.
\<close>

definition getMappingByKeepName_counted ::
  "string \<Rightarrow> world \<Rightarrow> ((string + SyncMapping option) \<times> world) \<times> nat" where
  "getMappingByKeepName_counted keepName w =
     (case getSyncState w of
        (Inl err, w') \<Rightarrow> ((Inl err, w'), 0)
      | (Inr state, w') \<Rightarrow>
          (case find_counted (\<lambda>(pageId, m). keepNoteName m = keepName) (mappings state) of
             (None, n) \<Rightarrow> ((Inr None, w'), n)
           | (Some (pageId, m), n) \<Rightarrow>
               if pageId = [] then ((Inr None, w'), n) else (getMapping pageId w', n)))"

text \<open>A store that holds three mappings, of pages A, B and C.\<close>

definition mapped :: "string \<Rightarrow> string \<Rightarrow> SyncMapping" where
  "mapped pageId keepName = (doc1_mapping Notion)\<lparr>notionPageId := pageId, keepNoteName := keepName\<rparr>"

definition three_mappings :: "(string \<times> SyncMapping) list" where
  "three_mappings =
     [(''docA'', mapped ''docA'' ''notes/a''), (''docB'', mapped ''docB'' ''notes/b''),
      (''docC'', mapped ''docC'' ''notes/c'')]"

definition three_stored :: world where
  "three_stored =
     (world_at 0)\<lparr>kv_state := Some \<lparr>lastPolledAt = 0, mappings = three_mappings\<rparr>,
                  kv_mapping := map_of three_mappings\<rparr>"

text \<open>The store after a \<^verbatim>\<open>deleteMapping\<close> in which no KV call fails.\<close>

definition unstored :: "string \<Rightarrow> world \<Rightarrow> world" where
  "unstored pageId w =
     w\<lparr>kv_mapping := (kv_mapping w)(pageId := None),
       kv_state := Some ((state_of w)\<lparr>mappings := filter (\<lambda>(k, _). k \<noteq> pageId) (mappings (state_of w))\<rparr>)\<rparr>"

text \<open>
  The state record and the per-page records agree in both directions: the per-page
  records are exactly the entries of the state record (no page has a record without an
  entry, or an entry without an equal record), the keys of the state record are distinct,
  and every entry sits under a non-empty page id, which is also the id inside the mapping.
\<close>

definition records_agree :: "world \<Rightarrow> bool" where
  "records_agree w =
     (distinct (map fst (mappings (state_of w)))
      \<and> kv_mapping w = map_of (mappings (state_of w))
      \<and> list_all (\<lambda>(pageId, m). pageId \<noteq> [] \<and> notionPageId m = pageId)
            (mappings (state_of w)))"

text \<open>
  A sequence of calls of \<^verbatim>\<open>upsertMapping\<close> and \<^verbatim>\<open>deleteMapping\<close>, each one started after
  the one before it has returned. Both handlers pass a mapping whose page id is not empty.
\<close>

datatype store_op = Upsert SyncMapping | Delete string

fun valid_op :: "store_op \<Rightarrow> bool" where
  "valid_op (Upsert m) = (notionPageId m \<noteq> [])"
| "valid_op (Delete pageId) = True"

fun run_ops :: "store_op list \<Rightarrow> world \<Rightarrow> world" where
  "run_ops [] w = w"
| "run_ops (Upsert m # ops) w = run_ops ops (snd (upsertMapping m w))"
| "run_ops (Delete pageId # ops) w = run_ops ops (snd (deleteMapping pageId w))"

definition three_ops :: "store_op list" where
  "three_ops =
     [Upsert (mapped ''docD'' ''notes/d''), Delete ''docB'', Upsert (mapped ''docA'' ''notes/e'')]"

text \<open>
  The three awaited KV calls of \<^verbatim>\<open>upsertMapping\<close>, one by one: the write of the per-page
  record, the read of the state record (\<^verbatim>\<open>getSyncState\<close>), and the write of the state
  record with the entry assigned.
\<close>

definition set_mapping_record :: "SyncMapping \<Rightarrow> unit io" where
  "set_mapping_record mapping =
     kv_call (\<lambda>w. ((), w\<lparr>kv_mapping := (kv_mapping w)(notionPageId mapping \<mapsto> mapping)\<rparr>))"

definition set_state_entry :: "SyncState \<Rightarrow> SyncMapping \<Rightarrow> unit io" where
  "set_state_entry state mapping =
     set_sync_state (state\<lparr>mappings := assign (mappings state) (notionPageId mapping) mapping\<rparr>)"

text \<open>
  Two calls of \<^verbatim>\<open>upsertMapping\<close> made by two invocations that run at the same time, their
  KV calls taking turns: both write their per-page record, both read the state record,
  both write it back.
\<close>

definition interleaved_upserts :: "SyncMapping \<Rightarrow> SyncMapping \<Rightarrow> unit io" where
  "interleaved_upserts a b =
     and_then (set_mapping_record a) (\<lambda>_.
     and_then (set_mapping_record b) (\<lambda>_.
     and_then getSyncState (\<lambda>state_a.
     and_then getSyncState (\<lambda>state_b.
     and_then (set_state_entry state_a a) (\<lambda>_.
     set_state_entry state_b b)))))"

section \<open>Properties\<close>

subsection \<open>The keys of the KV store\<close>

text \<open>
  The key of the state record is never the key of a per-page record, and two pages never
  share a key: this is what lets the store be modelled as one state record and a map
  from page ids to mappings.
\<close>

lemma mapping_key_not_state_key: "mapping_key pageId \<noteq> SYNC_STATE_KEY"
  by (simp add: mapping_key_def MAPPING_KEY_PREFIX_def SYNC_STATE_KEY_def)

lemma mapping_key_inj: "mapping_key a = mapping_key b \<longleftrightarrow> a = b"
  by (simp add: mapping_key_def)

subsection \<open>What each step leaves alone\<close>

lemma kv_call_reads:
  assumes "kv_call (\<lambda>v. (g v, v)) w = (r, w')"
  shows "kv_state w' = kv_state w \<and> kv_mapping w' = kv_mapping w \<and> writes w' = writes w
         \<and> clock w' = clock w \<and> ticks w' = ticks w"
  using assms by (auto simp: kv_call_def split: list.splits if_splits)

lemma getSyncState_frame:
  assumes "getSyncState w = (r, w')"
  shows "kv_state w' = kv_state w \<and> kv_mapping w' = kv_mapping w \<and> writes w' = writes w
         \<and> clock w' = clock w \<and> ticks w' = ticks w"
  using assms unfolding getSyncState_def by (rule kv_call_reads)

lemma getMapping_frame:
  assumes "getMapping pageId w = (r, w')"
  shows "kv_state w' = kv_state w \<and> kv_mapping w' = kv_mapping w \<and> writes w' = writes w
         \<and> clock w' = clock w \<and> ticks w' = ticks w"
  using assms unfolding getMapping_def by (rule kv_call_reads)

lemma getMappingByKeepName_frame:
  assumes "getMappingByKeepName keepName w = (r, w')"
  shows "kv_state w' = kv_state w \<and> kv_mapping w' = kv_mapping w \<and> writes w' = writes w
         \<and> clock w' = clock w \<and> ticks w' = ticks w"
proof (cases "getSyncState w")
  case (Pair r1 w1)
  note fr1 = getSyncState_frame [OF Pair]
  show ?thesis
  proof (cases r1)
    case (Inl err)
    with Pair assms have "w' = w1" by (simp add: getMappingByKeepName_def and_then_def)
    with fr1 show ?thesis by simp
  next
    case (Inr state)
    show ?thesis
    proof (cases "find_page_id (mappings state) keepName")
      case None
      with Pair Inr assms have "w' = w1" by (simp add: getMappingByKeepName_def and_then_def)
      with fr1 show ?thesis by simp
    next
      case (Some pageId)
      show ?thesis
      proof (cases "pageId = []")
        case True
        with Some Pair Inr assms have "w' = w1" by (simp add: getMappingByKeepName_def and_then_def)
        with fr1 show ?thesis by simp
      next
        case False
        with Some Pair Inr assms have "getMapping pageId w1 = (r, w')"
          by (simp add: getMappingByKeepName_def and_then_def)
        from getMapping_frame [OF this] fr1 show ?thesis by simp
      qed
    qed
  qed
qed

lemma shouldSkip_frame:
  assumes "shouldSkipDueToCooldown mapping orig c w = (b, w')"
  shows "kv_state w' = kv_state w \<and> kv_mapping w' = kv_mapping w \<and> writes w' = writes w
         \<and> clock w' = clock w \<and> kv_faults w' = kv_faults w"
  using assms by (auto simp: shouldSkipDueToCooldown_def Date_now_def split: option.splits if_splits)

lemma kv_call_writes:
  assumes "kv_call f w = (r, w')" and "\<And>v. writes (snd (f v)) = writes v"
  shows "writes w' = writes w"
  using assms(1) assms(2) [of w] assms(2) [of "w\<lparr>kv_faults := tl (kv_faults w)\<rparr>"]
  by (auto simp: kv_call_def split: list.splits if_splits prod.splits)

lemma set_sync_state_writes:
  assumes "set_sync_state st w = (r, w')"
  shows "writes w' = writes w"
  using assms unfolding set_sync_state_def by (rule kv_call_writes) simp

lemma upsertMapping_writes:
  assumes "upsertMapping m w = (r, w')"
  shows "writes w' = writes w"
proof -
  let ?put = "kv_call (\<lambda>w. ((), w\<lparr>kv_mapping := (kv_mapping w)(notionPageId m \<mapsto> m)\<rparr>))"
  obtain r1 w1 where p1: "?put w = (r1, w1)" by (cases "?put w")
  have w1: "writes w1 = writes w" using p1 by (rule kv_call_writes) simp
  obtain r2 w2 where p2: "getSyncState w1 = (r2, w2)" by (cases "getSyncState w1")
  have w2: "writes w2 = writes w1" using getSyncState_frame [OF p2] by simp
  show ?thesis
  proof (cases r1)
    case (Inl err)
    with p1 assms have "w' = w1" by (simp add: upsertMapping_def and_then_def)
    with w1 show ?thesis by simp
  next
    case (Inr u)
    show ?thesis
    proof (cases r2)
      case (Inl err)
      with p1 p2 Inr assms have "w' = w2" by (simp add: upsertMapping_def and_then_def)
      with w1 w2 show ?thesis by simp
    next
      case (Inr st)
      with p1 p2 \<open>r1 = Inr u\<close> assms
      have "set_sync_state (st\<lparr>mappings := assign (mappings st) (notionPageId m) m\<rparr>) w2 = (r, w')"
        by (simp add: upsertMapping_def and_then_def)
      from set_sync_state_writes [OF this] w1 w2 show ?thesis by simp
    qed
  qed
qed


lemma write_notion_result:
  assumes "write_notion e existingMapping note props s w = (r, s', w')"
  shows "\<exists>call. writes w' = writes w @ [call] \<and> write_failed e call = isl r"
    and "kv_state w' = kv_state w \<and> kv_mapping w' = kv_mapping w \<and> kv_faults w' = kv_faults w
         \<and> clock w' = clock w \<and> ticks w' = ticks w"
    and "isl r \<Longrightarrow> s' = s"
  using assms
  by (auto simp: write_notion_def remote_def write_failed_def Let_def
           split: option.splits sum.splits if_splits)

lemma upsertKeepNote_result:
  assumes "upsertKeepNote e existingName note w = (r, w')"
  shows "\<exists>call. writes w' = writes w @ [call] \<and> write_failed e call = isl r"
    and "kv_state w' = kv_state w \<and> kv_mapping w' = kv_mapping w \<and> kv_faults w' = kv_faults w
         \<and> clock w' = clock w \<and> ticks w' = ticks w"
  using assms
  by (auto simp: upsertKeepNote_def remote_def write_failed_def
           split: option.splits sum.splits if_splits)

lemma record_mapping_writes:
  assumes "record_mapping note page pageId out s w = (out', s', w')"
  shows "writes w' = writes w"
  using assms
  by (auto simp: record_mapping_def Date_now_def split: prod.splits sum.splits
           dest!: upsertMapping_writes)

lemma poll_write_failure:
  assumes run: "process_note e note s w = (out, s', w')"
    and log: "writes w' = writes w @ [call]"
    and failed: "write_failed e call"
  shows "kv_state w' = kv_state w \<and> kv_mapping w' = kv_mapping w
         \<and> processed s' = processed s \<and> created s' = created s \<and> updated s' = updated s
         \<and> skipped s' = skipped s \<and> (\<exists>err. out = Failed err \<and> errors s' = errors s @ [(name note, err)])"
proof -
  from run log have live: "trashed note \<noteq> Some True" "name note \<noteq> []"
    by (auto simp: process_note_def split: if_splits)
  obtain r1 w1 where look: "getMappingByKeepName (name note) w = (r1, w1)"
    by (cases "getMappingByKeepName (name note) w")
  note fr1 = getMappingByKeepName_frame [OF look]
  show ?thesis
  proof (cases r1)
    case (Inl err)
    with run live look log fr1 show ?thesis by (auto simp: process_note_def)
  next
    case (Inr existingMapping)
    obtain skip w2 where cool: "shouldSkipDueToCooldown existingMapping Keep default_cooldown w1 = (skip, w2)"
      by (cases "shouldSkipDueToCooldown existingMapping Keep default_cooldown w1")
    note fr2 = shouldSkip_frame [OF cool]
    let ?unchanged = "case existingMapping of None \<Rightarrow> False | Some m \<Rightarrow> note_unchanged e m note"
    from run live look Inr cool log fr1 fr2 have go: "\<not> skip" "\<not> ?unchanged"
      by (auto simp: process_note_def split: if_splits)
    show ?thesis
    proof (cases "keepToNotion e note")
      case (Inl err)
      with run live look \<open>r1 = Inr existingMapping\<close> cool go log fr1 fr2 show ?thesis
        by (auto simp: process_note_def)
    next
      case (Inr props)
      obtain r3 s3 w3 where wr: "write_notion e existingMapping note props s w2 = (r3, s3, w3)"
        by (cases "write_notion e existingMapping note props s w2") auto
      from write_notion_result(1) [OF wr] obtain call' where
        c': "writes w3 = writes w2 @ [call']" "write_failed e call' = isl r3" by blast
      note fr3 = write_notion_result(2) [OF wr]
      show ?thesis
      proof (cases r3)
        case (Inl err)
        with write_notion_result(3) [OF wr] have "s3 = s" by simp
        with run live look \<open>r1 = Inr existingMapping\<close> cool go Inr wr Inl fr1 fr2 fr3
        show ?thesis by (auto simp: process_note_def caught_def)
      next
        case (Inr res)
        obtain page pageId out0 where res: "res = (page, pageId, out0)" by (cases res) auto
        with run live look \<open>r1 = Inr existingMapping\<close> cool go \<open>keepToNotion e note = Inr props\<close> wr Inr
        have "record_mapping note page pageId out0 s3 w3 = (out, s', w')"
          by (simp add: process_note_def)
        from record_mapping_writes [OF this] c' fr1 fr2 log have "call' = call" by simp
        with c' failed Inr show ?thesis by simp
      qed
    qed
  qed
qed


lemma sync_page_write_failure:
  assumes run: "sync_page e pageId w = (resp, w')"
    and log: "writes w' = writes w @ [call]"
    and failed: "write_failed e call"
  shows "kv_state w' = kv_state w \<and> kv_mapping w' = kv_mapping w
         \<and> (\<exists>err. resp = InternalServerError err)"
proof (cases "getNotionPage e pageId")
  case (Inl err)
  with run log show ?thesis by (auto simp: sync_page_def)
next
  case (Inr page)
  obtain r1 w1 where look: "getMapping pageId w = (r1, w1)" by (cases "getMapping pageId w")
  note fr1 = getMapping_frame [OF look]
  show ?thesis
  proof (cases r1)
    case (Inl err)
    with run Inr look log fr1 show ?thesis by (auto simp: sync_page_def)
  next
    case existing: (Inr existingMapping)
    obtain skip w2 where cool: "shouldSkipDueToCooldown existingMapping Notion default_cooldown w1 = (skip, w2)"
      by (cases "shouldSkipDueToCooldown existingMapping Notion default_cooldown w1")
    note fr2 = shouldSkip_frame [OF cool]
    from run Inr look existing cool log fr1 fr2 have go: "\<not> skip"
      by (auto simp: sync_page_def split: if_splits)
    show ?thesis
    proof (cases "notionToKeep e page")
      case (Inl err)
      with run Inr look existing cool go log fr1 fr2 show ?thesis by (auto simp: sync_page_def)
    next
      case keepNote: (Inr keepNote)
      obtain r3 w3 where wr: "upsertKeepNote e (existing_note_name existingMapping) keepNote w2 = (r3, w3)"
        by (cases "upsertKeepNote e (existing_note_name existingMapping) keepNote w2")
      from upsertKeepNote_result(1) [OF wr] obtain call' where
        c': "writes w3 = writes w2 @ [call']" "write_failed e call' = isl r3" by blast
      note fr3 = upsertKeepNote_result(2) [OF wr]
      show ?thesis
      proof (cases r3)
        case (Inl err)
        with run Inr look existing cool go keepNote wr fr1 fr2 fr3 show ?thesis
          by (auto simp: sync_page_def)
      next
        case saved: (Inr savedNote)
        let ?m = "\<lparr>notionPageId = pageId, keepNoteName = name savedNote,
                   lastSyncedNotionEditedTime = last_edited_time page,
                   lastSyncedKeepUpdateTime = updateTime savedNote,
                   lastWriteOrigin = Notion, lastWriteTimestamp = clock w3 (ticks w3)\<rparr>"
        obtain r5 w5 where up: "upsertMapping ?m (w3\<lparr>ticks := Suc (ticks w3)\<rparr>) = (r5, w5)"
          by (cases "upsertMapping ?m (w3\<lparr>ticks := Suc (ticks w3)\<rparr>)")
        from run Inr look existing cool go keepNote wr saved up have "w' = w5"
          by (auto simp: sync_page_def Date_now_def split: sum.splits)
        with upsertMapping_writes [OF up] c' fr1 fr2 log have "call' = call" by simp
        with c' failed saved show ?thesis by simp
      qed
    qed
  qed
qed

lemma webhook_write_failure:
  assumes run: "webhook_handler e req w = (resp, w')"
    and log: "writes w' = writes w @ [call]"
    and failed: "write_failed e call"
  shows "kv_state w' = kv_state w \<and> kv_mapping w' = kv_mapping w
         \<and> (\<exists>err. resp = InternalServerError err)"
proof -
  from run log have "sync_page e (payload_id req) w = (resp, w')"
    by (auto simp: webhook_handler_def split: if_splits option.splits sum.splits)
  from sync_page_write_failure [OF this log failed] show ?thesis .
qed

subsection \<open>The cooldown guard\<close>

text \<open>
  C5. For a mapping whose \<^verbatim>\<open>lastWriteOrigin\<close> is the incoming origin, and any cooldown
  duration, \<^verbatim>\<open>shouldSkipDueToCooldown\<close> answers true exactly when the clock reading minus
  \<^verbatim>\<open>lastWriteTimestamp\<close> is strictly below the duration; when the elapsed time is exactly
  the duration the answer is false.
\<close>

theorem cooldown_guard_boundary:
  assumes "lastWriteOrigin m = orig"
  shows "(fst (shouldSkipDueToCooldown (Some m) orig c w)
            \<longleftrightarrow> clock w (ticks w) - lastWriteTimestamp m < c)
         \<and> (clock w (ticks w) - lastWriteTimestamp m = c
              \<longrightarrow> \<not> fst (shouldSkipDueToCooldown (Some m) orig c w))"
  using assms by (simp add: shouldSkipDueToCooldown_def Date_now_def)

theorem cooldown_guard_boundary_witness:
  "fst (shouldSkipDueToCooldown (Some (doc1_mapping Notion)) Notion 30000 (world_at 129999))
   \<and> \<not> fst (shouldSkipDueToCooldown (Some (doc1_mapping Notion)) Notion 30000 (world_at 130000))"
  using cooldown_guard_boundary [of "doc1_mapping Notion" Notion 30000 "world_at 129999"]
        cooldown_guard_boundary [of "doc1_mapping Notion" Notion 30000 "world_at 130000"]
  by (simp add: doc1_mapping_def world_at_def)

subsection \<open>Failure of the write to the other side\<close>

text \<open>
  C6. When the call that writes to the other side (an update or a create) is answered
  with an error, the mapping store is as it was before the event: both the state record
  and the per-page records are unchanged, and the event ends in the failure branch. This
  holds for a note of a poll batch and for a webhook delivery, under any schedule of KV
  faults.
\<close>

theorem write_failure_leaves_mapping:
  "(process_note e note s w = (out, s', w') \<and> writes w' = writes w @ [call]
      \<and> write_failed e call
     \<longrightarrow> kv_state w' = kv_state w \<and> kv_mapping w' = kv_mapping w
         \<and> (\<exists>err. out = Failed err))
   \<and> (webhook_handler e req v = (resp, v') \<and> writes v' = writes v @ [call']
      \<and> write_failed e call'
     \<longrightarrow> kv_state v' = kv_state v \<and> kv_mapping v' = kv_mapping v
         \<and> (\<exists>err. resp = InternalServerError err))"
proof (rule conjI; rule impI)
  assume "process_note e note s w = (out, s', w') \<and> writes w' = writes w @ [call]
            \<and> write_failed e call"
  then have "process_note e note s w = (out, s', w')" "writes w' = writes w @ [call]"
    "write_failed e call" by simp_all
  from poll_write_failure [OF this]
  show "kv_state w' = kv_state w \<and> kv_mapping w' = kv_mapping w \<and> (\<exists>err. out = Failed err)"
    by blast
next
  assume "webhook_handler e req v = (resp, v') \<and> writes v' = writes v @ [call']
            \<and> write_failed e call'"
  then have "webhook_handler e req v = (resp, v')" "writes v' = writes v @ [call']"
    "write_failed e call'" by simp_all
  from webhook_write_failure [OF this]
  show "kv_state v' = kv_state v \<and> kv_mapping v' = kv_mapping v
          \<and> (\<exists>err. resp = InternalServerError err)" .
qed

theorem write_failure_leaves_mapping_witness:
  "writes (snd (snd (process_note notion_down (keep_note ''1'' ''t2'') empty_summary
                       (world_with (doc1_mapping Notion) 105000))))
     = writes (world_with (doc1_mapping Notion) 105000)
         @ [UpdateNotionPage ''doc1'' [(''Name'', Title ''1'')]]
   \<and> write_failed notion_down (UpdateNotionPage ''doc1'' [(''Name'', Title ''1'')])
   \<and> kv_state (snd (snd (process_note notion_down (keep_note ''1'' ''t2'') empty_summary
                            (world_with (doc1_mapping Notion) 105000))))
       = kv_state (world_with (doc1_mapping Notion) 105000)
   \<and> kv_mapping (snd (snd (process_note notion_down (keep_note ''1'' ''t2'') empty_summary
                              (world_with (doc1_mapping Notion) 105000))))
       = kv_mapping (world_with (doc1_mapping Notion) 105000)
   \<and> fst (process_note notion_down (keep_note ''1'' ''t2'') empty_summary
            (world_with (doc1_mapping Notion) 105000)) = Failed ''Notion API error''
   \<and> writes (snd (webhook_handler keep_down (page_event ''page_updated'' ''doc1'')
                     (world_with (doc1_mapping Keep) 105000)))
       = writes (world_with (doc1_mapping Keep) 105000)
           @ [UpdateKeepNote ''notes/1'' \<lparr>fields_title = Some ''Untitled'', fields_body = None\<rparr>]
   \<and> write_failed keep_down
         (UpdateKeepNote ''notes/1'' \<lparr>fields_title = Some ''Untitled'', fields_body = None\<rparr>)
   \<and> kv_state (snd (webhook_handler keep_down (page_event ''page_updated'' ''doc1'')
                       (world_with (doc1_mapping Keep) 105000)))
       = kv_state (world_with (doc1_mapping Keep) 105000)
   \<and> kv_mapping (snd (webhook_handler keep_down (page_event ''page_updated'' ''doc1'')
                         (world_with (doc1_mapping Keep) 105000)))
       = kv_mapping (world_with (doc1_mapping Keep) 105000)
   \<and> fst (webhook_handler keep_down (page_event ''page_updated'' ''doc1'')
            (world_with (doc1_mapping Keep) 105000)) = InternalServerError ''Keep API error: 503''"
proof -
  let ?W = "world_with (doc1_mapping Notion) 105000"
  let ?R = "process_note notion_down (keep_note ''1'' ''t2'') empty_summary ?W"
  let ?call = "UpdateNotionPage ''doc1'' [(''Name'', Title ''1'')]"
  let ?V = "world_with (doc1_mapping Keep) 105000"
  let ?Q = "webhook_handler keep_down (page_event ''page_updated'' ''doc1'') ?V"
  let ?call' = "UpdateKeepNote ''notes/1'' \<lparr>fields_title = Some ''Untitled'', fields_body = None\<rparr>"
  have run: "?R = (fst ?R, fst (snd ?R), snd (snd ?R))" by simp
  have log: "writes (snd (snd ?R)) = writes ?W @ [?call]" by code_simp
  have failed: "write_failed notion_down ?call" by (simp add: write_failed_def notion_down_def)
  have out: "fst ?R = Failed ''Notion API error''" by code_simp
  have run': "?Q = (fst ?Q, snd ?Q)" by simp
  have log': "writes (snd ?Q) = writes ?V @ [?call']" by code_simp
  have failed': "write_failed keep_down ?call'" by (simp add: write_failed_def keep_down_def)
  have out': "fst ?Q = InternalServerError ''Keep API error: 503''" by code_simp
  from write_failure_leaves_mapping
         [THEN conjunct1, rule_format, OF conjI [OF run conjI [OF log failed]]]
  have poll: "kv_state (snd (snd ?R)) = kv_state ?W \<and> kv_mapping (snd (snd ?R)) = kv_mapping ?W"
    by blast
  from write_failure_leaves_mapping
         [THEN conjunct2, rule_format, OF conjI [OF run' conjI [OF log' failed']]]
  have hook: "kv_state (snd ?Q) = kv_state ?V \<and> kv_mapping (snd ?Q) = kv_mapping ?V"
    by blast
  from log failed poll out log' failed' hook out' show ?thesis by blast
qed

subsection \<open>Deletion notifications\<close>

text \<open>
  C8. A signed \<^verbatim>\<open>page_deleted\<close> notification is acknowledged with status 200 (as
  "Page deleted, skipping" when the body is a page) and leaves the whole world as it
  was: nothing is written to Keep and no mapping is touched.
\<close>

theorem deletion_is_acknowledged_noop:
  assumes "payload_type req = ''page_deleted''"
    and "wh_method req = ''POST''"
    and "notion_signature req = Some sig" and "sig \<noteq> []"
    and "verifyNotionWebhook e (body_json req) sig (NOTION_WEBHOOK_SECRET e) = Inr True"
  shows "status_code (fst (webhook_handler e req w)) = 200
         \<and> snd (webhook_handler e req w) = w
         \<and> (payload_object req = ''page''
              \<longrightarrow> fst (webhook_handler e req w) = PageDeletedSkipping)"
  using assms by (simp add: webhook_handler_def)

theorem deletion_is_acknowledged_noop_witness:
  "webhook_handler demo_env (page_event ''page_deleted'' ''doc1'')
     (world_with (doc1_mapping Notion) 200000)
   = (PageDeletedSkipping, world_with (doc1_mapping Notion) 200000)"
  using deletion_is_acknowledged_noop
          [of "page_event ''page_deleted'' ''doc1''" "''5f2d''" demo_env
              "world_with (doc1_mapping Notion) 200000"]
  by (simp add: page_event_def demo_env_def verifyNotionWebhook_def prod_eq_iff)

subsection \<open>Counters of the poll batch\<close>

lemma write_notion_counts:
  assumes "write_notion e existingMapping note props s w = (r, s', w')"
  shows "processed s' = processed s \<and> skipped s' = skipped s \<and> errors s' = errors s"
    and "r = Inr (page, pageId, out) \<Longrightarrow>
           (out = AppliedCreated \<and> created s' = created s + 1 \<and> updated s' = updated s)
         \<or> (out = AppliedUpdated \<and> updated s' = updated s + 1 \<and> created s' = created s)"
  using assms
  by (auto simp: write_notion_def remote_def Let_def split: option.splits sum.splits if_splits)

lemma record_mapping_counts:
  assumes "record_mapping note page pageId out s w = (out', s', w')"
  shows "created s' = created s \<and> updated s' = updated s \<and> skipped s' = skipped s
         \<and> ((out' = out \<and> processed s' = processed s + 1 \<and> errors s' = errors s)
            \<or> (\<exists>err. out' = Failed err \<and> processed s' = processed s
                      \<and> errors s' = errors s @ [(if name note \<noteq> [] then name note else ''unknown'', err)]))"
  using assms
  by (auto simp: record_mapping_def caught_def Date_now_def split: prod.splits sum.splits)

lemma process_note_counted:
  assumes run: "process_note e note s w = (out, s', w')"
  shows "counted out s s' note"
proof (cases "trashed note = Some True \<or> name note = []")
  case True
  with run show ?thesis by (auto simp: process_note_def split: if_splits)
next
  case False
  then have live: "trashed note \<noteq> Some True" "name note \<noteq> []" by simp_all
  obtain r1 w1 where look: "getMappingByKeepName (name note) w = (r1, w1)"
    by (cases "getMappingByKeepName (name note) w")
  show ?thesis
  proof (cases r1)
    case (Inl err)
    with run live look show ?thesis by (auto simp: process_note_def caught_def)
  next
    case existing: (Inr existingMapping)
    obtain skip w2 where cool: "shouldSkipDueToCooldown existingMapping Keep default_cooldown w1 = (skip, w2)"
      by (cases "shouldSkipDueToCooldown existingMapping Keep default_cooldown w1")
    let ?unchanged = "case existingMapping of None \<Rightarrow> False | Some m \<Rightarrow> note_unchanged e m note"
    show ?thesis
    proof (cases "skip \<or> ?unchanged")
      case True
      with run live look existing cool show ?thesis
        by (auto simp: process_note_def split: if_splits)
    next
      case False
      then have go: "\<not> skip" "\<not> ?unchanged" by simp_all
      show ?thesis
      proof (cases "keepToNotion e note")
        case (Inl err)
        with run live look existing cool go show ?thesis
          by (auto simp: process_note_def caught_def)
      next
        case props: (Inr props)
        obtain r3 s3 w3 where wr: "write_notion e existingMapping note props s w2 = (r3, s3, w3)"
          by (cases "write_notion e existingMapping note props s w2") auto
        note c3 = write_notion_counts(1) [OF wr]
        show ?thesis
        proof (cases r3)
          case (Inl err)
          with run live look existing cool go props wr write_notion_result(3) [OF wr]
          show ?thesis by (auto simp: process_note_def caught_def)
        next
          case (Inr res)
          obtain page pageId out0 where res: "res = (page, pageId, out0)" by (cases res) auto
          with run live look existing cool go props wr Inr
          have rec: "record_mapping note page pageId out0 s3 w3 = (out, s', w')"
            by (simp add: process_note_def)
          from write_notion_counts(2) [OF wr, of page pageId out0] Inr res
          have c3': "(out0 = AppliedCreated \<and> created s3 = created s + 1 \<and> updated s3 = updated s)
                   \<or> (out0 = AppliedUpdated \<and> updated s3 = updated s + 1 \<and> created s3 = created s)"
            by simp
          from record_mapping_counts [OF rec] c3 c3' live show ?thesis
            by (cases s; cases s'; cases s3) auto
        qed
      qed
    qed
  qed
qed


lemma counted_balanced:
  assumes "counted out s s' note" and "balanced s"
  shows "balanced s'"
  using assms by (cases out) (auto simp: balanced_def)

lemma poll_loop_balanced:
  assumes "poll_loop e ns s w = (outs, s', w')" and "balanced s"
  shows "balanced s'"
  using assms
proof (induction ns arbitrary: s w outs s' w')
  case Nil
  then show ?case by simp
next
  case (Cons nt ns)
  obtain out s1 w1 where step: "process_note e nt s w = (out, s1, w1)"
    by (cases "process_note e nt s w") auto
  obtain outs2 s2 w2 where rest: "poll_loop e ns s1 w1 = (outs2, s2, w2)"
    by (cases "poll_loop e ns s1 w1") auto
  from Cons.prems(1) step rest have "s' = s2" by simp
  moreover from counted_balanced [OF process_note_counted [OF step] Cons.prems(2)]
  have "balanced s1" .
  from Cons.IH [OF rest this] have "balanced s2" .
  ultimately show ?case by simp
qed

lemma poll_batch_balanced:
  assumes "poll_batch e w = (PollComplete sm, w')"
  shows "balanced sm"
proof -
  from assms obtain ns where ns: "listKeepNotes e = Inr ns"
    by (auto simp: poll_batch_def split: sum.splits)
  obtain outs s1 w1 where loop: "poll_loop e ns empty_summary w = (outs, s1, w1)"
    by (cases "poll_loop e ns empty_summary w") auto
  from assms ns loop have "sm = s1"
    by (auto simp: poll_batch_def Date_now_def split: sum.splits prod.splits)
  moreover have "balanced empty_summary" by (simp add: balanced_def empty_summary_def)
  from poll_loop_balanced [OF loop this] have "balanced s1" .
  ultimately show ?thesis by simp
qed



text \<open>Evaluation of the model on concrete inputs: only the scrutinee of a case is rewritten.\<close>

lemmas run_defs =
  process_note_def demo_env_def keep_note_def world_at_def upsertMapping_def and_then_def
  kv_call_def getSyncState_def set_sync_state_def getMappingByKeepName_def find_page_id_def
  getMapping_def shouldSkipDueToCooldown_def note_unchanged_def getTime_def js_le_def
  write_notion_def remote_def record_mapping_def Date_now_def empty_summary_def caught_def
  default_cooldown_def buildDefaultNotionProperties_def kv_error_def Let_def

lemmas weak_congs =
  prod.case_cong_weak sum.case_cong_weak option.case_cong_weak list.case_cong_weak

lemmas more_run_defs =
  webhook_handler_def sync_page_def page_event_def verifyNotionWebhook_def upsertKeepNote_def
  existing_note_name_def world_with_def doc1_mapping_def

subsection \<open>Isolation of a failing note\<close>








subsection \<open>The counters of a batch\<close>

text \<open>
  C10, as amended. In the summary a poll returns, \<open>processed\<close> is at most
  \<open>created + updated\<close>, which is at most \<open>processed\<close> plus the number of error
  entries; so the two are equal when no note failed. A note that ends applied adds one to
  \<open>processed\<close> and one to \<open>created + updated\<close> and nothing else; a note that is skipped
  or fails is never counted in \<open>processed\<close>; a trashed or nameless note changes no
  counter, adds no error entry and touches nothing.
\<close>

theorem poll_summary_counts:
  "(poll_batch e w = (PollComplete sm, w')
      \<longrightarrow> processed sm \<le> created sm + updated sm
          \<and> created sm + updated sm \<le> processed sm + length (errors sm))
   \<and> (process_note e note s v = (out, s', v') \<and> applied out
      \<longrightarrow> processed s' = processed s + 1
          \<and> created s' + updated s' = created s + updated s + 1
          \<and> skipped s' = skipped s \<and> errors s' = errors s)
   \<and> (process_note e note s v = (out, s', v') \<and> \<not> applied out
      \<longrightarrow> processed s' = processed s)
   \<and> (trashed note = Some True \<or> name note = []
      \<longrightarrow> process_note e note s v = (Ignored, s, v))"
proof -
  have batch: "poll_batch e w = (PollComplete sm, w')
      \<longrightarrow> processed sm \<le> created sm + updated sm
          \<and> created sm + updated sm \<le> processed sm + length (errors sm)"
    using poll_batch_balanced [of e w sm w'] by (simp add: balanced_def)
  have yes: "process_note e note s v = (out, s', v') \<and> applied out
      \<longrightarrow> processed s' = processed s + 1
          \<and> created s' + updated s' = created s + updated s + 1
          \<and> skipped s' = skipped s \<and> errors s' = errors s"
    using process_note_counted [of e "note" s v out s' v'] by (auto simp: applied_def)
  have no: "process_note e note s v = (out, s', v') \<and> \<not> applied out
      \<longrightarrow> processed s' = processed s"
    using process_note_counted [of e "note" s v out s' v'] by (cases out) (auto simp: applied_def)
  have ignored: "trashed note = Some True \<or> name note = []
      \<longrightarrow> process_note e note s v = (Ignored, s, v)"
    by (auto simp: process_note_def)
  from batch yes no ignored show ?thesis by blast
qed

theorem poll_summary_counts_witness:
  "fst (poll_batch one_note (world_at 0))
     = PollComplete \<lparr>processed = 1, created = 1, updated = 0, skipped = 0, errors = []\<rparr>
   \<and> fst (process_note demo_env (keep_note ''1'' ''t1'') empty_summary (world_at 0))
       = AppliedCreated
   \<and> processed (fst (snd (process_note demo_env (keep_note ''1'' ''t1'') empty_summary
                             (world_at 0)))) = 1
   \<and> fst (process_note demo_env (keep_note ''1'' ''t1'') empty_summary
            ((world_at 0)\<lparr>kv_faults := [False, True]\<rparr>)) = Failed ''KV request failed''
   \<and> processed (fst (snd (process_note demo_env (keep_note ''1'' ''t1'') empty_summary
                             ((world_at 0)\<lparr>kv_faults := [False, True]\<rparr>)))) = 0
   \<and> process_note demo_env ((keep_note ''1'' ''t1'')\<lparr>trashed := Some True\<rparr>) empty_summary
        (world_at 0) = (Ignored, empty_summary, world_at 0)"
proof -
  let ?B = "poll_batch one_note (world_at 0)"
  let ?sm = "\<lparr>processed = 1, created = 1, updated = 0, skipped = 0, errors = []\<rparr>"
  let ?A = "process_note demo_env (keep_note ''1'' ''t1'') empty_summary (world_at 0)"
  let ?F = "process_note demo_env (keep_note ''1'' ''t1'') empty_summary
              ((world_at 0)\<lparr>kv_faults := [False, True]\<rparr>)"
  have b: "fst ?B = PollComplete ?sm"
    by (simp add: poll_batch_def one_note_def updateLastPolled_def run_defs cong: weak_congs)
  then have batch: "?B = (PollComplete ?sm, snd ?B)" by (simp add: prod_eq_iff)
  have a: "fst ?A = AppliedCreated" by (simp add: run_defs cong: weak_congs)
  then have yes: "?A = (AppliedCreated, fst (snd ?A), snd (snd ?A)) \<and> applied AppliedCreated"
    by (simp add: prod_eq_iff applied_def)
  have f: "fst ?F = Failed ''KV request failed''" by (simp add: run_defs cong: weak_congs)
  then have no: "?F = (Failed ''KV request failed'', fst (snd ?F), snd (snd ?F))
                 \<and> \<not> applied (Failed ''KV request failed'')"
    by (simp add: prod_eq_iff applied_def)
  have ignored: "trashed ((keep_note ''1'' ''t1'')\<lparr>trashed := Some True\<rparr>) = Some True
                 \<or> name ((keep_note ''1'' ''t1'')\<lparr>trashed := Some True\<rparr>) = []" by simp
  from poll_summary_counts [THEN conjunct2, THEN conjunct1, rule_format, OF yes]
  have p1: "processed (fst (snd ?A)) = 1" by (simp add: empty_summary_def)
  from poll_summary_counts [THEN conjunct2, THEN conjunct2, THEN conjunct1, rule_format, OF no]
  have p0: "processed (fst (snd ?F)) = 0" by (simp add: empty_summary_def)
  from poll_summary_counts
         [THEN conjunct2, THEN conjunct2, THEN conjunct2, rule_format, OF ignored]
  have ig: "process_note demo_env ((keep_note ''1'' ''t1'')\<lparr>trashed := Some True\<rparr>)
              empty_summary (world_at 0) = (Ignored, empty_summary, world_at 0)" .
  from poll_summary_counts [THEN conjunct1, rule_format, OF batch]
  have "processed ?sm \<le> created ?sm + updated ?sm" by simp
  with b a p1 f p0 ig show ?thesis by simp
qed

text \<open>
  The claim as stated (\<open>processed = created + updated\<close>) fails when the page is created
  and the first KV write of \<^verbatim>\<open>upsertMapping\<close> then throws: the note is counted as
  created, gets an error entry, and is not counted as processed.
\<close>

theorem processed_counter_counterexample:
  "fst (poll_batch one_note ((world_at 0)\<lparr>kv_faults := [False, True]\<rparr>))
     = PollComplete \<lparr>processed = 0, created = 1, updated = 0, skipped = 0,
                     errors = [(''notes/1'', ''KV request failed'')]\<rparr>"
  by (simp add: poll_batch_def one_note_def updateLastPolled_def run_defs cong: weak_congs)

subsection \<open>Order of the cooldown check and the version check\<close>

lemma poll_cooldown_first:
  assumes live: "trashed nt \<noteq> Some True" "name nt \<noteq> []"
    and look: "getMappingByKeepName (name nt) w = (Inr (Some m), w1)"
    and same: "lastWriteOrigin m = Keep"
    and inside: "clock w (ticks w) - lastWriteTimestamp m < default_cooldown"
  shows "process_note e nt s w
           = (SkippedCooldown, s\<lparr>skipped := skipped s + 1\<rparr>, w1\<lparr>ticks := Suc (ticks w1)\<rparr>)"
    and "writes w1 = writes w \<and> kv_state w1 = kv_state w \<and> kv_mapping w1 = kv_mapping w"
proof -
  note fr = getMappingByKeepName_frame [OF look]
  from fr show "writes w1 = writes w \<and> kv_state w1 = kv_state w \<and> kv_mapping w1 = kv_mapping w"
    by simp
  from fr inside have "clock w1 (ticks w1) - lastWriteTimestamp m < default_cooldown" by simp
  with live look same show "process_note e nt s w
           = (SkippedCooldown, s\<lparr>skipped := skipped s + 1\<rparr>, w1\<lparr>ticks := Suc (ticks w1)\<rparr>)"
    by (simp add: process_note_def shouldSkipDueToCooldown_def Date_now_def)
qed

lemma webhook_cooldown_first:
  assumes page: "getNotionPage e pageId = Inr page"
    and look: "getMapping pageId w = (Inr (Some m), w1)"
    and same: "lastWriteOrigin m = Notion"
    and inside: "clock w (ticks w) - lastWriteTimestamp m < default_cooldown"
  shows "sync_page e pageId w = (SkippedDueToCooldown, w1\<lparr>ticks := Suc (ticks w1)\<rparr>)"
    and "writes w1 = writes w \<and> kv_state w1 = kv_state w \<and> kv_mapping w1 = kv_mapping w"
proof -
  note fr = getMapping_frame [OF look]
  from fr show "writes w1 = writes w \<and> kv_state w1 = kv_state w \<and> kv_mapping w1 = kv_mapping w"
    by simp
  from fr inside have "clock w1 (ticks w1) - lastWriteTimestamp m < default_cooldown" by simp
  with page look same show "sync_page e pageId w = (SkippedDueToCooldown, w1\<lparr>ticks := Suc (ticks w1)\<rparr>)"
    by (simp add: sync_page_def shouldSkipDueToCooldown_def Date_now_def)
qed

text \<open>
  C4, as amended. When an event arrives from the side recorded as \<^verbatim>\<open>lastWriteOrigin\<close>
  while less than the cooldown (30000 ms, so also 5000 ms) has passed since
  \<^verbatim>\<open>lastWriteTimestamp\<close>, the outcome is skipped-cooldown, whatever the version markers
  are: in both handlers the cooldown check comes first and ends the event before any
  version comparison. Nothing is written to the other side and no mapping changes.
\<close>

theorem cooldown_check_comes_first:
  "(trashed nt \<noteq> Some True \<and> name nt \<noteq> []
      \<and> getMappingByKeepName (name nt) w = (Inr (Some m), w1)
      \<and> lastWriteOrigin m = Keep
      \<and> clock w (ticks w) - lastWriteTimestamp m < default_cooldown
     \<longrightarrow> fst (process_note e nt s w) = SkippedCooldown
         \<and> writes (snd (snd (process_note e nt s w))) = writes w
         \<and> kv_state (snd (snd (process_note e nt s w))) = kv_state w
         \<and> kv_mapping (snd (snd (process_note e nt s w))) = kv_mapping w)
   \<and> (getNotionPage e pageId = Inr page
      \<and> getMapping pageId v = (Inr (Some m'), v1)
      \<and> lastWriteOrigin m' = Notion
      \<and> clock v (ticks v) - lastWriteTimestamp m' < default_cooldown
     \<longrightarrow> fst (sync_page e pageId v) = SkippedDueToCooldown
         \<and> writes (snd (sync_page e pageId v)) = writes v
         \<and> kv_state (snd (sync_page e pageId v)) = kv_state v
         \<and> kv_mapping (snd (sync_page e pageId v)) = kv_mapping v)"
proof (rule conjI; rule impI)
  assume h: "trashed nt \<noteq> Some True \<and> name nt \<noteq> []
      \<and> getMappingByKeepName (name nt) w = (Inr (Some m), w1)
      \<and> lastWriteOrigin m = Keep
      \<and> clock w (ticks w) - lastWriteTimestamp m < default_cooldown"
  then have "trashed nt \<noteq> Some True" "name nt \<noteq> []"
    "getMappingByKeepName (name nt) w = (Inr (Some m), w1)" "lastWriteOrigin m = Keep"
    "clock w (ticks w) - lastWriteTimestamp m < default_cooldown" by simp_all
  note h = this
  from poll_cooldown_first(1) [OF h] poll_cooldown_first(2) [OF h]
  show "fst (process_note e nt s w) = SkippedCooldown
         \<and> writes (snd (snd (process_note e nt s w))) = writes w
         \<and> kv_state (snd (snd (process_note e nt s w))) = kv_state w
         \<and> kv_mapping (snd (snd (process_note e nt s w))) = kv_mapping w" by simp
next
  assume "getNotionPage e pageId = Inr page
      \<and> getMapping pageId v = (Inr (Some m'), v1)
      \<and> lastWriteOrigin m' = Notion
      \<and> clock v (ticks v) - lastWriteTimestamp m' < default_cooldown"
  then have "getNotionPage e pageId = Inr page" "getMapping pageId v = (Inr (Some m'), v1)"
    "lastWriteOrigin m' = Notion" "clock v (ticks v) - lastWriteTimestamp m' < default_cooldown"
    by simp_all
  note h = this
  from webhook_cooldown_first(1) [OF h] webhook_cooldown_first(2) [OF h]
  show "fst (sync_page e pageId v) = SkippedDueToCooldown
         \<and> writes (snd (sync_page e pageId v)) = writes v
         \<and> kv_state (snd (sync_page e pageId v)) = kv_state v
         \<and> kv_mapping (snd (sync_page e pageId v)) = kv_mapping v" by simp
qed

theorem cooldown_check_comes_first_witness:
  "fst (process_note demo_env (keep_note ''1'' ''t1'') empty_summary
          (world_with (doc1_mapping Keep) 105000)) = SkippedCooldown
   \<and> writes (snd (snd (process_note demo_env (keep_note ''1'' ''t1'') empty_summary
                         (world_with (doc1_mapping Keep) 105000))))
       = writes (world_with (doc1_mapping Keep) 105000)
   \<and> kv_mapping (snd (snd (process_note demo_env (keep_note ''1'' ''t1'') empty_summary
                              (world_with (doc1_mapping Keep) 105000))))
       = kv_mapping (world_with (doc1_mapping Keep) 105000)
   \<and> fst (sync_page demo_env ''doc1'' (world_with (doc1_mapping Notion) 105000))
       = SkippedDueToCooldown
   \<and> writes (snd (sync_page demo_env ''doc1'' (world_with (doc1_mapping Notion) 105000)))
       = writes (world_with (doc1_mapping Notion) 105000)
   \<and> kv_mapping (snd (sync_page demo_env ''doc1'' (world_with (doc1_mapping Notion) 105000)))
       = kv_mapping (world_with (doc1_mapping Notion) 105000)"
proof -
  let ?K = "world_with (doc1_mapping Keep) 105000"
  let ?N = "world_with (doc1_mapping Notion) 105000"
  have keep_side:
    "trashed (keep_note ''1'' ''t1'') \<noteq> Some True \<and> name (keep_note ''1'' ''t1'') \<noteq> []
     \<and> getMappingByKeepName (name (keep_note ''1'' ''t1'')) ?K
         = (Inr (Some (doc1_mapping Keep)), ?K)
     \<and> lastWriteOrigin (doc1_mapping Keep) = Keep
     \<and> clock ?K (ticks ?K) - lastWriteTimestamp (doc1_mapping Keep) < default_cooldown"
    by (simp add: run_defs more_run_defs cong: weak_congs)
  have notion_side:
    "getNotionPage demo_env ''doc1''
       = Inr \<lparr>page_id = ''doc1'', last_edited_time = ''t1'', properties = []\<rparr>
     \<and> getMapping ''doc1'' ?N = (Inr (Some (doc1_mapping Notion)), ?N)
     \<and> lastWriteOrigin (doc1_mapping Notion) = Notion
     \<and> clock ?N (ticks ?N) - lastWriteTimestamp (doc1_mapping Notion) < default_cooldown"
    by (simp add: run_defs more_run_defs cong: weak_congs)
  from cooldown_check_comes_first [THEN conjunct1, rule_format, OF keep_side]
       cooldown_check_comes_first [THEN conjunct2, rule_format, OF notion_side]
  show ?thesis by blast
qed

text \<open>
  The scenario of the claim, on either side: the stored version equals the event's, the
  origin is the one that wrote last, 5000 ms have passed. The outcome is skipped-cooldown,
  not skipped-unchanged.
\<close>

theorem same_origin_redelivery_counterexample:
  "fst (webhook_handler demo_env (page_event ''page_updated'' ''doc1'')
          (world_with (doc1_mapping Notion) 105000)) = SkippedDueToCooldown
   \<and> fst (process_note demo_env (keep_note ''1'' ''t1'') empty_summary
            (world_with (doc1_mapping Keep) 105000)) = SkippedCooldown"
  by (simp add: run_defs more_run_defs cong: weak_congs)

subsection \<open>The version check of the Notion side\<close>

text \<open>
  C3, at a failing input. The webhook handler never compares the page's
  \<^verbatim>\<open>last_edited_time\<close> with the stored \<^verbatim>\<open>lastSyncedNotionEditedTime\<close>: a page event whose
  version equals the stored one is written to Keep again as soon as the cooldown guard
  does not fire, that is when the last write came from Keep, or came from Notion at least
  30000 ms ago. The poll handler makes the comparison (lines 76 to 87).
\<close>

theorem stale_notion_event_is_written:
  "lastSyncedNotionEditedTime (doc1_mapping Keep) = ''t1''
   \<and> getNotionPage demo_env ''doc1''
       = Inr \<lparr>page_id = ''doc1'', last_edited_time = ''t1'', properties = []\<rparr>
   \<and> fst (webhook_handler demo_env (page_event ''page_updated'' ''doc1'')
            (world_with (doc1_mapping Keep) 105000)) = SyncedToKeep ''notes/1''
   \<and> writes (snd (webhook_handler demo_env (page_event ''page_updated'' ''doc1'')
                     (world_with (doc1_mapping Keep) 105000)))
       = [UpdateKeepNote ''notes/1'' \<lparr>fields_title = Some ''Untitled'', fields_body = None\<rparr>]
   \<and> fst (webhook_handler demo_env (page_event ''page_updated'' ''doc1'')
            (world_with (doc1_mapping Notion) 130000)) = SyncedToKeep ''notes/1''
   \<and> writes (snd (webhook_handler demo_env (page_event ''page_updated'' ''doc1'')
                     (world_with (doc1_mapping Notion) 130000)))
       = [UpdateKeepNote ''notes/1'' \<lparr>fields_title = Some ''Untitled'', fields_body = None\<rparr>]"
  by (simp add: run_defs more_run_defs cong: weak_congs)

subsection \<open>The store when no KV call fails\<close>

lemma getSyncState_ok:
  "kv_faults w = [] \<Longrightarrow> getSyncState w = (Inr (state_of w), w)"
  by (simp add: getSyncState_def kv_call_def state_of_def)

lemma getMapping_ok:
  "kv_faults w = [] \<Longrightarrow> getMapping pageId w = (Inr (kv_mapping w pageId), w)"
  by (simp add: getMapping_def kv_call_def)

lemma getMappingByKeepName_ok:
  "kv_faults w = [] \<Longrightarrow> getMappingByKeepName keepName w = (Inr (lookup_by_name w keepName), w)"
  by (simp add: getMappingByKeepName_def and_then_def getSyncState_ok getMapping_ok
        lookup_by_name_def split: option.splits)

lemma upsertMapping_ok:
  "kv_faults w = [] \<Longrightarrow> upsertMapping m w = (Inr (), stored m w)"
  by (simp add: upsertMapping_def and_then_def getSyncState_def set_sync_state_def kv_call_def
        stored_def state_of_def)

lemma stored_fields:
  "kv_faults (stored m w) = kv_faults w" "writes (stored m w) = writes w"
  "clock (stored m w) = clock w" "ticks (stored m w) = ticks w"
  "kv_mapping (stored m w) = (kv_mapping w)(notionPageId m \<mapsto> m)"
  "mappings (state_of (stored m w)) = assign (mappings (state_of w)) (notionPageId m) m"
  by (simp_all add: stored_def state_of_def)

lemma find_page_id_assign:
  assumes "find_page_id ms (keepNoteName m) = None \<or> find_page_id ms (keepNoteName m) = Some pageId"
  shows "find_page_id (assign ms pageId m) (keepNoteName m) = Some pageId"
  using assms
  by (induction ms) (auto simp: find_page_id_def split: if_splits)

lemma find_page_id_Some:
  assumes "find_page_id ms keepName = Some pageId"
  shows "\<exists>m. (pageId, m) \<in> set ms \<and> keepNoteName m = keepName"
  using assms
  by (induction ms) (auto simp: find_page_id_def split: if_splits)

lemma consistent_lookup:
  assumes "store_consistent w"
  shows "lookup_by_name w keepName = None \<Longrightarrow> find_page_id (mappings (state_of w)) keepName = None"
    and "lookup_by_name w keepName = Some m \<Longrightarrow>
           find_page_id (mappings (state_of w)) keepName = Some (notionPageId m)
           \<and> keepNoteName m = keepName \<and> notionPageId m \<noteq> []"
proof -
  have all: "\<And>pageId m'. (pageId, m') \<in> set (mappings (state_of w)) \<Longrightarrow>
               pageId \<noteq> [] \<and> kv_mapping w pageId = Some m' \<and> notionPageId m' = pageId"
    using assms by (auto simp: store_consistent_def list_all_iff)
  show "lookup_by_name w keepName = None \<Longrightarrow> find_page_id (mappings (state_of w)) keepName = None"
  proof (cases "find_page_id (mappings (state_of w)) keepName")
    case None
    then show ?thesis by simp
  next
    case (Some pageId)
    assume none: "lookup_by_name w keepName = None"
    from find_page_id_Some [OF Some] obtain m' where "(pageId, m') \<in> set (mappings (state_of w))" by blast
    from all [OF this] Some none show ?thesis by (simp add: lookup_by_name_def)
  qed
  show "lookup_by_name w keepName = Some m \<Longrightarrow>
           find_page_id (mappings (state_of w)) keepName = Some (notionPageId m)
           \<and> keepNoteName m = keepName \<and> notionPageId m \<noteq> []"
  proof -
    assume some: "lookup_by_name w keepName = Some m"
    then obtain pageId where f: "find_page_id (mappings (state_of w)) keepName = Some pageId"
      and p: "pageId \<noteq> []" "kv_mapping w pageId = Some m"
      by (auto simp: lookup_by_name_def split: option.splits if_splits)
    from find_page_id_Some [OF f] obtain m' where
      m': "(pageId, m') \<in> set (mappings (state_of w))" "keepNoteName m' = keepName" by blast
    from all [OF m'(1)] p have "m' = m" "notionPageId m = pageId" by simp_all
    with f m' p show ?thesis by simp
  qed
qed


lemma applied_run_shape:
  assumes ok: "kv_faults w = []"
    and run: "process_note e nt s w = (out, s1, w1)"
    and app: "applied out"
  shows "\<exists>m1 w3. w1 = stored m1 w3 \<and> kv_faults w3 = [] \<and> kv_state w3 = kv_state w
            \<and> kv_mapping w3 = kv_mapping w
            \<and> keepNoteName m1 = name nt \<and> lastSyncedKeepUpdateTime m1 = updateTime nt
            \<and> lastWriteOrigin m1 = Keep
            \<and> (case lookup_by_name w (name nt) of
                  Some m0 \<Rightarrow> notionPageId m1 = notionPageId m0
                | None \<Rightarrow> (\<exists>props page. createNotionPage e (NOTION_DATABASE_ID e) props = Inr page
                                        \<and> notionPageId m1 = page_id page))"
proof -
  from run app have live: "trashed nt \<noteq> Some True" "name nt \<noteq> []"
    by (auto simp: process_note_def applied_def split: if_splits)
  let ?existing = "lookup_by_name w (name nt)"
  obtain skip w2 where cool: "shouldSkipDueToCooldown ?existing Keep default_cooldown w = (skip, w2)"
    by (cases "shouldSkipDueToCooldown ?existing Keep default_cooldown w")
  have w2: "kv_faults w2 = []" "kv_state w2 = kv_state w" "kv_mapping w2 = kv_mapping w"
    using shouldSkip_frame [OF cool] ok by simp_all
  let ?unchanged = "case ?existing of None \<Rightarrow> False | Some m \<Rightarrow> note_unchanged e m nt"
  from run app live ok cool have go: "\<not> skip" "\<not> ?unchanged"
    by (auto simp: process_note_def getMappingByKeepName_ok applied_def split: if_splits)
  from run app live ok cool go obtain props where props: "keepToNotion e nt = Inr props"
    by (cases "keepToNotion e nt") (auto simp: process_note_def getMappingByKeepName_ok applied_def)
  obtain r3 s3 w3 where wr: "write_notion e ?existing nt props s w2 = (r3, s3, w3)"
    by (cases "write_notion e ?existing nt props s w2") auto
  have w3: "kv_faults w3 = []" "kv_state w3 = kv_state w" "kv_mapping w3 = kv_mapping w"
    using write_notion_result(2) [OF wr] w2 by simp_all
  from run app live ok cool go props wr obtain page pageId out0 where
    r3: "r3 = Inr (page, pageId, out0)"
    by (cases r3) (auto simp: process_note_def getMappingByKeepName_ok applied_def)
  let ?m1 = "\<lparr>notionPageId = pageId, keepNoteName = name nt,
              lastSyncedNotionEditedTime = last_edited_time page,
              lastSyncedKeepUpdateTime = updateTime nt,
              lastWriteOrigin = Keep, lastWriteTimestamp = clock w3 (ticks w3)\<rparr>"
  let ?w4 = "w3\<lparr>ticks := Suc (ticks w3)\<rparr>"
  have w4: "kv_faults ?w4 = []" using w3 by simp
  from run live ok cool go props wr r3 have "record_mapping nt page pageId out0 s3 w3 = (out, s1, w1)"
    by (simp add: process_note_def getMappingByKeepName_ok)
  then have w1: "w1 = stored ?m1 ?w4"
    by (simp add: record_mapping_def Date_now_def upsertMapping_ok [OF w4])
  have origin: "case ?existing of
                  Some m0 \<Rightarrow> pageId = notionPageId m0
                | None \<Rightarrow> (\<exists>props page. createNotionPage e (NOTION_DATABASE_ID e) props = Inr page
                                        \<and> pageId = page_id page)"
    using wr r3
    by (auto simp: write_notion_def remote_def Let_def split: option.splits sum.splits)
  show ?thesis
    apply (rule exI [of _ ?m1], rule exI [of _ ?w4])
    using w1 w3 origin by (simp split: option.splits)
qed

lemma replay_lookup:
  assumes cons: "store_consistent w"
    and w3: "kv_state w3 = kv_state w" "kv_mapping w3 = kv_mapping w"
    and nm: "keepNoteName m1 = keepName"
    and origin: "case lookup_by_name w keepName of
                   Some m0 \<Rightarrow> notionPageId m1 = notionPageId m0
                 | None \<Rightarrow> notionPageId m1 \<noteq> []"
  shows "lookup_by_name (stored m1 w3) keepName = Some m1"
proof -
  have st: "state_of w3 = state_of w" using w3 by (simp add: state_of_def)
  have "(find_page_id (mappings (state_of w)) keepName = None
         \<or> find_page_id (mappings (state_of w)) keepName = Some (notionPageId m1))
        \<and> notionPageId m1 \<noteq> []"
  proof (cases "lookup_by_name w keepName")
    case None
    with consistent_lookup(1) [OF cons None] origin show ?thesis by simp
  next
    case (Some m0)
    with consistent_lookup(2) [OF cons Some] origin show ?thesis by simp
  qed
  with find_page_id_assign [of "mappings (state_of w)" m1 "notionPageId m1"] nm
  have "find_page_id (assign (mappings (state_of w)) (notionPageId m1) m1) keepName
          = Some (notionPageId m1)" "notionPageId m1 \<noteq> []" by auto
  then show ?thesis by (simp add: lookup_by_name_def stored_fields st)
qed


lemma keep_replay:
  assumes cons: "store_consistent w"
    and ok: "kv_faults w = []"
    and run: "process_note e nt s w = (out, s1, w1)"
    and app: "applied out"
    and parse: "getTime e (updateTime nt) \<noteq> None"
    and ids: "\<forall>db props page. createNotionPage e db props = Inr page \<longrightarrow> page_id page \<noteq> []"
  shows "\<exists>m1. lookup_by_name w1 (name nt) = Some m1 \<and> lastWriteOrigin m1 = Keep
           \<and> process_note e nt s1 w1
               = (if clock w1 (ticks w1) - lastWriteTimestamp m1 < default_cooldown
                  then SkippedCooldown else SkippedUnchanged,
                  s1\<lparr>skipped := skipped s1 + 1\<rparr>, w1\<lparr>ticks := Suc (ticks w1)\<rparr>)"
proof -
  from run app have live: "trashed nt \<noteq> Some True" "name nt \<noteq> []"
    by (auto simp: process_note_def applied_def split: if_splits)
  from applied_run_shape [OF ok run app] obtain m1 w3 where
    w1: "w1 = stored m1 w3" and w3: "kv_faults w3 = []" "kv_state w3 = kv_state w"
      "kv_mapping w3 = kv_mapping w"
    and m1: "keepNoteName m1 = name nt" "lastSyncedKeepUpdateTime m1 = updateTime nt"
      "lastWriteOrigin m1 = Keep"
    and origin: "case lookup_by_name w (name nt) of
                   Some m0 \<Rightarrow> notionPageId m1 = notionPageId m0
                 | None \<Rightarrow> (\<exists>props page. createNotionPage e (NOTION_DATABASE_ID e) props = Inr page
                                         \<and> notionPageId m1 = page_id page)"
    by blast
  from origin ids have origin': "case lookup_by_name w (name nt) of
                   Some m0 \<Rightarrow> notionPageId m1 = notionPageId m0
                 | None \<Rightarrow> notionPageId m1 \<noteq> []"
    by (cases "lookup_by_name w (name nt)") fastforce+
  from replay_lookup [OF cons w3(2,3) m1(1) origin'] w1
  have look: "lookup_by_name w1 (name nt) = Some m1" by simp
  have ok1: "kv_faults w1 = []" using w1 w3 by (simp add: stored_fields)
  from parse m1 have same: "note_unchanged e m1 nt"
    by (auto simp: note_unchanged_def js_le_def)
  have "process_note e nt s1 w1
          = (if clock w1 (ticks w1) - lastWriteTimestamp m1 < default_cooldown
             then SkippedCooldown else SkippedUnchanged,
             s1\<lparr>skipped := skipped s1 + 1\<rparr>, w1\<lparr>ticks := Suc (ticks w1)\<rparr>)"
    using live look m1 same
    by (simp add: process_note_def getMappingByKeepName_ok [OF ok1]
          shouldSkipDueToCooldown_def Date_now_def)
  with look m1 show ?thesis by blast
qed

lemma synced_run_shape:
  assumes ok: "kv_faults v = []"
    and run: "sync_page e pageId v = (SyncedToKeep keepName, v1)"
  shows "\<exists>page (saved::KeepNote) v3.
           getNotionPage e pageId = Inr page \<and> keepName = name saved
           \<and> kv_faults v3 = [] \<and> kv_state v3 = kv_state v \<and> kv_mapping v3 = kv_mapping v
           \<and> v1 = stored \<lparr>notionPageId = pageId, keepNoteName = name saved,
                           lastSyncedNotionEditedTime = last_edited_time page,
                           lastSyncedKeepUpdateTime = updateTime saved,
                           lastWriteOrigin = Notion,
                           lastWriteTimestamp = clock v3 (ticks v3)\<rparr>
                          (v3\<lparr>ticks := Suc (ticks v3)\<rparr>)"
proof -
  from run obtain page where page: "getNotionPage e pageId = Inr page"
    by (cases "getNotionPage e pageId") (auto simp: sync_page_def)
  let ?existing = "kv_mapping v pageId"
  obtain skip v2 where cool: "shouldSkipDueToCooldown ?existing Notion default_cooldown v = (skip, v2)"
    by (cases "shouldSkipDueToCooldown ?existing Notion default_cooldown v")
  have v2: "kv_faults v2 = []" "kv_state v2 = kv_state v" "kv_mapping v2 = kv_mapping v"
    using shouldSkip_frame [OF cool] ok by simp_all
  from run page ok cool have go: "\<not> skip"
    by (auto simp: sync_page_def getMapping_ok split: if_splits)
  from run page ok cool go obtain keepNote where keepNote: "notionToKeep e page = Inr keepNote"
    by (cases "notionToKeep e page") (auto simp: sync_page_def getMapping_ok)
  obtain r3 v3 where wr: "upsertKeepNote e (existing_note_name ?existing) keepNote v2 = (r3, v3)"
    by (cases "upsertKeepNote e (existing_note_name ?existing) keepNote v2")
  have v3: "kv_faults v3 = []" "kv_state v3 = kv_state v" "kv_mapping v3 = kv_mapping v"
    using upsertKeepNote_result(2) [OF wr] v2 by simp_all
  from run page ok cool go keepNote wr obtain saved where saved: "r3 = Inr saved"
    by (cases r3) (auto simp: sync_page_def getMapping_ok)
  have v4: "kv_faults (v3\<lparr>ticks := Suc (ticks v3)\<rparr>) = []" using v3 by simp
  from run page ok cool go keepNote wr saved
  have "keepName = name saved
        \<and> v1 = stored \<lparr>notionPageId = pageId, keepNoteName = name saved,
                        lastSyncedNotionEditedTime = last_edited_time page,
                        lastSyncedKeepUpdateTime = updateTime saved,
                        lastWriteOrigin = Notion,
                        lastWriteTimestamp = clock v3 (ticks v3)\<rparr>
                       (v3\<lparr>ticks := Suc (ticks v3)\<rparr>)"
    by (auto simp: sync_page_def getMapping_ok Date_now_def upsertMapping_ok [OF v4])
  with page v3 show ?thesis by blast
qed

lemma notion_replay_inside_window:
  assumes ok: "kv_faults v = []"
    and run: "sync_page e pageId v = (SyncedToKeep keepName, v1)"
    and rec: "kv_mapping v1 pageId = Some m1"
    and inside: "clock v1 (ticks v1) - lastWriteTimestamp m1 < default_cooldown"
  shows "sync_page e pageId v1 = (SkippedDueToCooldown, v1\<lparr>ticks := Suc (ticks v1)\<rparr>)"
proof -
  from synced_run_shape [OF ok run] obtain page and saved :: KeepNote and v3 where
    page: "getNotionPage e pageId = Inr page" and v3: "kv_faults v3 = []"
    and v1: "v1 = stored \<lparr>notionPageId = pageId, keepNoteName = name saved,
                           lastSyncedNotionEditedTime = last_edited_time page,
                           lastSyncedKeepUpdateTime = updateTime saved,
                           lastWriteOrigin = Notion,
                           lastWriteTimestamp = clock v3 (ticks v3)\<rparr>
                          (v3\<lparr>ticks := Suc (ticks v3)\<rparr>)"
    by blast
  from v1 v3 have ok1: "kv_faults v1 = []" by (simp add: stored_fields)
  from v1 rec have "lastWriteOrigin m1 = Notion" by (auto simp: stored_fields)
  with page rec inside show ?thesis
    by (simp add: sync_page_def getMapping_ok [OF ok1] shouldSkipDueToCooldown_def Date_now_def)
qed

subsection \<open>Replay of an applied event\<close>

text \<open>
  C1, as amended. Delivering the same Keep-side event a second time, after it was
  applied, never writes to Notion again: with a consistent store, no KV failure, an
  update time that parses and non-empty page ids, the second reconciliation is skipped
  and changes nothing but the skipped counter and the clock, as skipped-cooldown when it
  comes within the cooldown of the first and as skipped-unchanged after that. A
  Notion-side event delivered again within the cooldown of its first delivery is
  skipped-cooldown and changes nothing.
\<close>

theorem replay_is_skipped:
  "(store_consistent w \<and> kv_faults w = [] \<and> process_note e nt s w = (out, s1, w1)
      \<and> applied out \<and> getTime e (updateTime nt) \<noteq> None
      \<and> (\<forall>db props page. createNotionPage e db props = Inr page \<longrightarrow> page_id page \<noteq> [])
     \<longrightarrow> (\<exists>m1. lookup_by_name w1 (name nt) = Some m1 \<and> lastWriteOrigin m1 = Keep
              \<and> process_note e nt s1 w1
                  = (if clock w1 (ticks w1) - lastWriteTimestamp m1 < default_cooldown
                     then SkippedCooldown else SkippedUnchanged,
                     s1\<lparr>skipped := skipped s1 + 1\<rparr>, w1\<lparr>ticks := Suc (ticks w1)\<rparr>)))
   \<and> (kv_faults v = [] \<and> sync_page e pageId v = (SyncedToKeep keepName, v1)
      \<and> kv_mapping v1 pageId = Some m
      \<and> clock v1 (ticks v1) - lastWriteTimestamp m < default_cooldown
     \<longrightarrow> sync_page e pageId v1 = (SkippedDueToCooldown, v1\<lparr>ticks := Suc (ticks v1)\<rparr>))"
proof (rule conjI; rule impI)
  assume "store_consistent w \<and> kv_faults w = [] \<and> process_note e nt s w = (out, s1, w1)
      \<and> applied out \<and> getTime e (updateTime nt) \<noteq> None
      \<and> (\<forall>db props page. createNotionPage e db props = Inr page \<longrightarrow> page_id page \<noteq> [])"
  then have "store_consistent w" "kv_faults w = []" "process_note e nt s w = (out, s1, w1)"
    "applied out" "getTime e (updateTime nt) \<noteq> None"
    "\<forall>db props page. createNotionPage e db props = Inr page \<longrightarrow> page_id page \<noteq> []"
    by simp_all
  then show "\<exists>m1. lookup_by_name w1 (name nt) = Some m1 \<and> lastWriteOrigin m1 = Keep
              \<and> process_note e nt s1 w1
                  = (if clock w1 (ticks w1) - lastWriteTimestamp m1 < default_cooldown
                     then SkippedCooldown else SkippedUnchanged,
                     s1\<lparr>skipped := skipped s1 + 1\<rparr>, w1\<lparr>ticks := Suc (ticks w1)\<rparr>)"
    by (rule keep_replay)
next
  assume "kv_faults v = [] \<and> sync_page e pageId v = (SyncedToKeep keepName, v1)
      \<and> kv_mapping v1 pageId = Some m
      \<and> clock v1 (ticks v1) - lastWriteTimestamp m < default_cooldown"
  then have "kv_faults v = []" "sync_page e pageId v = (SyncedToKeep keepName, v1)"
    "kv_mapping v1 pageId = Some m"
    "clock v1 (ticks v1) - lastWriteTimestamp m < default_cooldown" by simp_all
  then show "sync_page e pageId v1 = (SkippedDueToCooldown, v1\<lparr>ticks := Suc (ticks v1)\<rparr>)"
    by (rule notion_replay_inside_window)
qed

theorem replay_is_skipped_witness:
  "fst (process_note demo_env (keep_note ''1'' ''t1'')
          (fst (snd (process_note demo_env (keep_note ''1'' ''t1'') empty_summary (world_at 0))))
          (snd (snd (process_note demo_env (keep_note ''1'' ''t1'') empty_summary (world_at 0)))))
     = SkippedCooldown
   \<and> fst (process_note demo_env (keep_note ''1'' ''t1'')
          (fst (snd (process_note demo_env (keep_note ''1'' ''t1'') empty_summary slow_world)))
          (snd (snd (process_note demo_env (keep_note ''1'' ''t1'') empty_summary slow_world))))
     = SkippedUnchanged
   \<and> writes (snd (snd (process_note demo_env (keep_note ''1'' ''t1'')
          (fst (snd (process_note demo_env (keep_note ''1'' ''t1'') empty_summary slow_world)))
          (snd (snd (process_note demo_env (keep_note ''1'' ''t1'') empty_summary slow_world))))))
     = writes (snd (snd (process_note demo_env (keep_note ''1'' ''t1'') empty_summary slow_world)))
   \<and> sync_page demo_env ''doc1'' (snd (sync_page demo_env ''doc1'' (world_at 0)))
     = (SkippedDueToCooldown,
        (snd (sync_page demo_env ''doc1'' (world_at 0)))
           \<lparr>ticks := Suc (ticks (snd (sync_page demo_env ''doc1'' (world_at 0))))\<rparr>)"
proof -
  let ?nt = "keep_note ''1'' ''t1''"
  let ?R = "process_note demo_env ?nt empty_summary (world_at 0)"
  let ?S = "process_note demo_env ?nt empty_summary slow_world"
  let ?Q = "sync_page demo_env ''doc1'' (world_at 0)"
  let ?m = "(doc1_mapping Notion)\<lparr>lastWriteTimestamp := 0\<rparr>"
  have ids: "\<forall>db props page. createNotionPage demo_env db props = Inr page \<longrightarrow> page_id page \<noteq> []"
    by (auto simp: demo_env_def)
  have parse: "getTime demo_env (updateTime ?nt) \<noteq> None"
    by (simp add: getTime_def demo_env_def keep_note_def)
  have "fst ?R = AppliedCreated" by (simp add: run_defs cong: weak_congs)
  then have r: "?R = (AppliedCreated, fst (snd ?R), snd (snd ?R))" by (simp add: prod_eq_iff)
  have fast: "store_consistent (world_at 0) \<and> kv_faults (world_at 0) = [] \<and> ?R = (AppliedCreated, fst (snd ?R), snd (snd ?R))
      \<and> applied AppliedCreated \<and> getTime demo_env (updateTime ?nt) \<noteq> None
      \<and> (\<forall>db props page. createNotionPage demo_env db props = Inr page \<longrightarrow> page_id page \<noteq> [])"
  proof -
    have "store_consistent (world_at 0) \<and> kv_faults (world_at 0) = [] \<and> applied AppliedCreated"
      by (simp add: store_consistent_def state_of_def world_at_def applied_def)
    with r ids parse show ?thesis by blast
  qed
  have "fst ?S = AppliedCreated" by (simp add: run_defs slow_world_def cong: weak_congs)
  then have s: "?S = (AppliedCreated, fst (snd ?S), snd (snd ?S))" by (simp add: prod_eq_iff)
  have slow: "store_consistent slow_world \<and> kv_faults slow_world = [] \<and> ?S = (AppliedCreated, fst (snd ?S), snd (snd ?S))
      \<and> applied AppliedCreated \<and> getTime demo_env (updateTime ?nt) \<noteq> None
      \<and> (\<forall>db props page. createNotionPage demo_env db props = Inr page \<longrightarrow> page_id page \<noteq> [])"
  proof -
    have "store_consistent slow_world \<and> kv_faults slow_world = [] \<and> applied AppliedCreated"
      by (simp add: store_consistent_def state_of_def world_at_def slow_world_def applied_def)
    with s ids parse show ?thesis by blast
  qed
  have "fst ?Q = SyncedToKeep ''notes/1''" by (simp add: run_defs more_run_defs cong: weak_congs)
  then have q: "?Q = (SyncedToKeep ''notes/1'', snd ?Q)" by (simp add: prod_eq_iff)
  have notion: "kv_faults (world_at 0) = [] \<and> ?Q = (SyncedToKeep ''notes/1'', snd ?Q)
      \<and> kv_mapping (snd ?Q) ''doc1'' = Some ?m
      \<and> clock (snd ?Q) (ticks (snd ?Q)) - lastWriteTimestamp ?m < default_cooldown"
  proof -
    have "kv_faults (world_at 0) = []
      \<and> kv_mapping (snd ?Q) ''doc1'' = Some ?m
      \<and> clock (snd ?Q) (ticks (snd ?Q)) - lastWriteTimestamp ?m < default_cooldown"
      by (simp add: run_defs more_run_defs cong: weak_congs)
    with q show ?thesis by blast
  qed
  from replay_is_skipped [THEN conjunct1, rule_format, OF fast] obtain m1 where
    m1: "lookup_by_name (snd (snd ?R)) (name ?nt) = Some m1"
    and r2: "process_note demo_env ?nt (fst (snd ?R)) (snd (snd ?R))
              = (if clock (snd (snd ?R)) (ticks (snd (snd ?R))) - lastWriteTimestamp m1 < default_cooldown
                 then SkippedCooldown else SkippedUnchanged,
                 (fst (snd ?R))\<lparr>skipped := skipped (fst (snd ?R)) + 1\<rparr>,
                 (snd (snd ?R))\<lparr>ticks := Suc (ticks (snd (snd ?R)))\<rparr>)" by blast
  have lk1: "lookup_by_name (snd (snd ?R)) (name ?nt) = Some ((doc1_mapping Keep)\<lparr>lastWriteTimestamp := 0\<rparr>)"
    and ck1: "clock (snd (snd ?R)) (ticks (snd (snd ?R))) = 1"
    by (simp_all add: run_defs more_run_defs lookup_by_name_def state_of_def cong: weak_congs)
  from m1 lk1 have "lastWriteTimestamp m1 = 0" by auto
  with r2 ck1 have c1: "fst (process_note demo_env ?nt (fst (snd ?R)) (snd (snd ?R))) = SkippedCooldown"
    by (simp add: default_cooldown_def)
  from replay_is_skipped [THEN conjunct1, rule_format, OF slow] obtain m2 where
    m2: "lookup_by_name (snd (snd ?S)) (name ?nt) = Some m2"
    and s2: "process_note demo_env ?nt (fst (snd ?S)) (snd (snd ?S))
              = (if clock (snd (snd ?S)) (ticks (snd (snd ?S))) - lastWriteTimestamp m2 < default_cooldown
                 then SkippedCooldown else SkippedUnchanged,
                 (fst (snd ?S))\<lparr>skipped := skipped (fst (snd ?S)) + 1\<rparr>,
                 (snd (snd ?S))\<lparr>ticks := Suc (ticks (snd (snd ?S)))\<rparr>)" by blast
  have lk2: "lookup_by_name (snd (snd ?S)) (name ?nt) = Some ((doc1_mapping Keep)\<lparr>lastWriteTimestamp := 0\<rparr>)"
    and ck2: "clock (snd (snd ?S)) (ticks (snd (snd ?S))) = 40000"
    by (simp_all add: run_defs more_run_defs slow_world_def lookup_by_name_def state_of_def cong: weak_congs)
  from m2 lk2 have "lastWriteTimestamp m2 = 0" by auto
  with s2 ck2 have c2: "fst (process_note demo_env ?nt (fst (snd ?S)) (snd (snd ?S))) = SkippedUnchanged"
    "writes (snd (snd (process_note demo_env ?nt (fst (snd ?S)) (snd (snd ?S))))) = writes (snd (snd ?S))"
    by (simp_all add: default_cooldown_def)
  from replay_is_skipped [THEN conjunct2, rule_format, OF notion]
  have c3: "sync_page demo_env ''doc1'' (snd ?Q)
              = (SkippedDueToCooldown, (snd ?Q)\<lparr>ticks := Suc (ticks (snd ?Q))\<rparr>)" .
  from c1 c2 c3 show ?thesis by simp
qed

text \<open>
  The claim as stated fails in the outcome it names: a Keep note polled again right after
  it was applied ends as skipped-cooldown, not as skipped-unchanged.
\<close>

theorem replay_outcome_counterexample:
  "fst (process_note demo_env (keep_note ''1'' ''t1'') empty_summary (world_at 0)) = AppliedCreated
   \<and> fst (process_note demo_env (keep_note ''1'' ''t1'')
            (fst (snd (process_note demo_env (keep_note ''1'' ''t1'') empty_summary (world_at 0))))
            (snd (snd (process_note demo_env (keep_note ''1'' ''t1'') empty_summary (world_at 0)))))
       = SkippedCooldown"
  by (simp add: run_defs cong: weak_congs)

subsection \<open>The echo of a write\<close>




subsection \<open>The lookup by Keep note name\<close>

lemma deleteMapping_ok:
  "kv_faults w = [] \<Longrightarrow> deleteMapping pageId w = (Inr (), unstored pageId w)"
  by (simp add: deleteMapping_def and_then_def getSyncState_def set_sync_state_def kv_call_def
        unstored_def state_of_def)

lemma assign_keys_old: "k \<in> fst ` set ms \<Longrightarrow> map fst (assign ms k v) = map fst ms"
  by (induction ms) force+

lemma assign_keys_new: "k \<notin> fst ` set ms \<Longrightarrow> map fst (assign ms k v) = map fst ms @ [k]"
  by (induction ms) force+

lemma assign_distinct: "distinct (map fst ms) \<Longrightarrow> distinct (map fst (assign ms k v))"
  by (cases "k \<in> fst ` set ms") (simp_all add: assign_keys_old assign_keys_new)

lemma assign_entries:
  assumes "distinct (map fst ms)" and "(k', v') \<in> set (assign ms k v)"
  shows "(k' = k \<and> v' = v) \<or> (k' \<noteq> k \<and> (k', v') \<in> set ms)"
  using assms
proof (induction ms)
  case Nil
  then show ?case by simp
next
  case (Cons entry ms)
  obtain k0 v0 where entry: "entry = (k0, v0)" by (cases entry)
  show ?case
  proof (cases "k0 = k")
    case True
    with Cons.prems entry have "k \<notin> fst ` set ms" by force
    with Cons.prems entry True show ?thesis by force
  next
    case False
    with Cons entry show ?thesis by force
  qed
qed

lemma assign_has: "(k, v) \<in> set (assign ms k v)"
  by (induction ms) auto

lemma stored_consistent:
  assumes cons: "store_consistent w" and pid: "notionPageId m \<noteq> []"
  shows "store_consistent (stored m w)"
proof -
  let ?ms = "mappings (state_of w)"
  from cons have d: "distinct (map fst ?ms)"
    and all: "\<And>k m'. (k, m') \<in> set ?ms \<Longrightarrow> k \<noteq> [] \<and> kv_mapping w k = Some m' \<and> notionPageId m' = k"
    by (auto simp: store_consistent_def list_all_iff)
  have "distinct (map fst (assign ?ms (notionPageId m) m))"
    using d by (rule assign_distinct)
  moreover have "\<And>k m'. (k, m') \<in> set (assign ?ms (notionPageId m) m) \<Longrightarrow>
      k \<noteq> [] \<and> ((kv_mapping w)(notionPageId m \<mapsto> m)) k = Some m' \<and> notionPageId m' = k"
    using assign_entries [OF d] all pid by fastforce
  ultimately show ?thesis
    by (auto simp: store_consistent_def list_all_iff stored_fields)
qed

lemma unstored_consistent:
  assumes cons: "store_consistent w"
  shows "store_consistent (unstored pageId w)"
  using assms
  by (auto simp: store_consistent_def list_all_iff unstored_def state_of_def distinct_map_filter)

lemma consistent_lookup_is_scan:
  assumes cons: "store_consistent w"
  shows "lookup_by_name w keepName
           = map_option snd (find (\<lambda>(pageId, m). keepNoteName m = keepName) (mappings (state_of w)))"
proof (cases "find (\<lambda>(pageId, m). keepNoteName m = keepName) (mappings (state_of w))")
  case None
  then show ?thesis by (simp add: lookup_by_name_def find_page_id_def)
next
  case (Some entry)
  obtain k m where entry: "entry = (k, m)" by (cases entry)
  from Some entry have "(k, m) \<in> set (mappings (state_of w))"
    by (auto simp: find_Some_iff in_set_conv_nth)
  with cons have "k \<noteq> []" "kv_mapping w k = Some m"
    by (auto simp: store_consistent_def list_all_iff)
  with Some entry show ?thesis by (simp add: lookup_by_name_def find_page_id_def)
qed

lemma find_counted_fst: "fst (find_counted P xs) = find P xs"
  by (induction xs) (auto split: prod.splits)

lemma find_counted_snd:
  "snd (find_counted P xs)
     = length (takeWhile (\<lambda>x. \<not> P x) xs) + (if find P xs = None then 0 else 1)"
  by (induction xs) (auto split: prod.splits)

lemma counted_lookup_result:
  "fst (getMappingByKeepName_counted keepName w) = getMappingByKeepName keepName w"
proof (cases "getSyncState w")
  case (Pair r1 w1)
  show ?thesis
  proof (cases r1)
    case (Inl err)
    with Pair show ?thesis
      by (simp add: getMappingByKeepName_counted_def getMappingByKeepName_def and_then_def)
  next
    case (Inr state)
    obtain r n where fc: "find_counted (\<lambda>(pageId, m). keepNoteName m = keepName) (mappings state) = (r, n)"
      by (cases "find_counted (\<lambda>(pageId, m). keepNoteName m = keepName) (mappings state)")
    with find_counted_fst [of "\<lambda>(pageId, m). keepNoteName m = keepName" "mappings state"]
    have r: "find (\<lambda>(pageId, m). keepNoteName m = keepName) (mappings state) = r" by simp
    with Pair Inr fc show ?thesis
      by (cases r)
         (auto simp: getMappingByKeepName_counted_def getMappingByKeepName_def and_then_def
                     find_page_id_def)
  qed
qed

lemma counted_lookup_count:
  assumes "getSyncState w = (Inr state, w0)"
  shows "snd (getMappingByKeepName_counted keepName w) = lookup_comparisons (mappings state) keepName"
  using assms
  by (auto simp: getMappingByKeepName_counted_def lookup_comparisons_def split: prod.splits option.splits)

lemma lookup_comparisons_exact:
  "lookup_comparisons ms keepName
     = length (takeWhile (\<lambda>(pageId, m). keepNoteName m \<noteq> keepName) ms)
       + (if find_page_id ms keepName = None then 0 else 1)"
  by (simp add: lookup_comparisons_def find_page_id_def find_counted_snd case_prod_unfold)

lemma map_of_assign: "map_of (assign ms k v) = (map_of ms)(k \<mapsto> v)"
  by (induction ms) auto

lemma map_of_filter_key: "map_of (filter (\<lambda>(k', _). k' \<noteq> k) ms) = (map_of ms)(k := None)"
  by (induction ms) auto

lemma agree_consistent:
  assumes "records_agree w"
  shows "store_consistent w"
  using assms
  by (auto simp: records_agree_def store_consistent_def list_all_iff)

lemma stored_agree:
  assumes agree: "records_agree w" and pid: "notionPageId m \<noteq> []"
  shows "records_agree (stored m w)"
proof -
  let ?ms = "mappings (state_of w)"
  from agree have d: "distinct (map fst ?ms)" and eq: "kv_mapping w = map_of ?ms"
    and all: "\<And>k m'. (k, m') \<in> set ?ms \<Longrightarrow> k \<noteq> [] \<and> notionPageId m' = k"
    by (auto simp: records_agree_def list_all_iff)
  have "\<And>k m'. (k, m') \<in> set (assign ?ms (notionPageId m) m) \<Longrightarrow> k \<noteq> [] \<and> notionPageId m' = k"
    using assign_entries [OF d] all pid by fastforce
  with assign_distinct [OF d] eq show ?thesis
    by (auto simp: records_agree_def list_all_iff stored_fields map_of_assign)
qed

lemma unstored_fields:
  "kv_faults (unstored pageId w) = kv_faults w"
  "kv_mapping (unstored pageId w) = (kv_mapping w)(pageId := None)"
  "mappings (state_of (unstored pageId w)) = filter (\<lambda>(k, _). k \<noteq> pageId) (mappings (state_of w))"
  by (simp_all add: unstored_def state_of_def)

lemma unstored_agree:
  assumes "records_agree w"
  shows "records_agree (unstored pageId w)"
  using assms
  by (auto simp: records_agree_def list_all_iff unstored_fields map_of_filter_key distinct_map_filter)

lemma run_ops_agree:
  assumes "kv_faults w = []" and "records_agree w" and "list_all valid_op ops"
  shows "records_agree (run_ops ops w) \<and> kv_faults (run_ops ops w) = []"
  using assms
proof (induction ops arbitrary: w)
  case Nil
  then show ?case by simp
next
  case (Cons op ops)
  show ?case
  proof (cases op)
    case (Upsert m)
    with Cons.prems have "records_agree (stored m w)" "kv_faults (stored m w) = []"
      by (simp_all add: stored_agree stored_fields)
    with Cons.IH [of "stored m w"] Cons.prems Upsert show ?thesis
      by (simp add: upsertMapping_ok)
  next
    case (Delete pageId)
    with Cons.prems have "records_agree (unstored pageId w)" "kv_faults (unstored pageId w) = []"
      by (simp_all add: unstored_agree unstored_fields)
    with Cons.IH [of "unstored pageId w"] Cons.prems Delete show ?thesis
      by (simp add: deleteMapping_ok)
  qed
qed

text \<open>\<^verbatim>\<open>upsertMapping\<close> is its three KV calls in a row.\<close>

lemma upsertMapping_steps:
  "upsertMapping mapping
     = and_then (set_mapping_record mapping) (\<lambda>_.
       and_then getSyncState (\<lambda>state. set_state_entry state mapping))"
  by (simp add: upsertMapping_def set_mapping_record_def set_state_entry_def)

text \<open>
  C9, as amended. The lookup by Keep note name is a linear scan of the state record, which
  is keyed by Notion page id, and there is no record keyed by note name. The lookup with
  its comparisons counted returns what \<^verbatim>\<open>getMappingByKeepName\<close> returns, and the number of
  name comparisons it makes is one per mapping that comes before the first mapping
  carrying the name, plus one for that mapping: every mapping is compared when none
  carries the name. When no KV call fails and the state record and the per-page records
  agree (in both directions), the lookup returns the first mapping, in key order, that
  carries the name; an \<^verbatim>\<open>upsertMapping\<close> sets the per-page record and the entry of its own
  page and leaves every other record and entry as it was; a \<^verbatim>\<open>deleteMapping\<close> removes the
  record and the entry of its own page and nothing else; and the agreement holds again
  after each of them, hence after any sequence of upserts and deletes that run one after
  another. The lookup itself changes neither the state record nor a per-page record,
  whether or not a KV call fails: it never rebuilds the state record.
\<close>

theorem lookup_scans_state_record:
  "fst (getMappingByKeepName_counted keepName w) = getMappingByKeepName keepName w
   \<and> (getSyncState w = (Inr state, w0)
      \<longrightarrow> snd (getMappingByKeepName_counted keepName w)
            = lookup_comparisons (mappings state) keepName)
   \<and> lookup_comparisons ms keepName
       = length (takeWhile (\<lambda>(pageId, m). keepNoteName m \<noteq> keepName) ms)
         + (if find_page_id ms keepName = None then 0 else 1)
   \<and> (kv_faults w = [] \<and> records_agree w
      \<longrightarrow> getMappingByKeepName keepName w
            = (Inr (map_option snd (find (\<lambda>(pageId, m). keepNoteName m = keepName)
                                     (mappings (state_of w)))), w))
   \<and> (kv_faults w = [] \<and> records_agree w \<and> notionPageId m \<noteq> []
      \<longrightarrow> fst (upsertMapping m w) = Inr ()
          \<and> records_agree (snd (upsertMapping m w))
          \<and> kv_mapping (snd (upsertMapping m w)) = (kv_mapping w)(notionPageId m \<mapsto> m)
          \<and> mappings (state_of (snd (upsertMapping m w)))
              = assign (mappings (state_of w)) (notionPageId m) m)
   \<and> (kv_faults w = [] \<and> records_agree w
      \<longrightarrow> fst (deleteMapping pageId w) = Inr ()
          \<and> records_agree (snd (deleteMapping pageId w))
          \<and> kv_mapping (snd (deleteMapping pageId w)) = (kv_mapping w)(pageId := None)
          \<and> mappings (state_of (snd (deleteMapping pageId w)))
              = filter (\<lambda>(k, _). k \<noteq> pageId) (mappings (state_of w)))
   \<and> (kv_faults w = [] \<and> records_agree w \<and> list_all valid_op ops
      \<longrightarrow> records_agree (run_ops ops w))
   \<and> (getMappingByKeepName keepName v = (r, v')
      \<longrightarrow> kv_state v' = kv_state v \<and> kv_mapping v' = kv_mapping v)"
proof -
  have same: "fst (getMappingByKeepName_counted keepName w) = getMappingByKeepName keepName w"
    by (rule counted_lookup_result)
  have count: "getSyncState w = (Inr state, w0)
      \<longrightarrow> snd (getMappingByKeepName_counted keepName w)
            = lookup_comparisons (mappings state) keepName"
    using counted_lookup_count [of w state w0 keepName] by blast
  have exact: "lookup_comparisons ms keepName
       = length (takeWhile (\<lambda>(pageId, m). keepNoteName m \<noteq> keepName) ms)
         + (if find_page_id ms keepName = None then 0 else 1)"
    by (rule lookup_comparisons_exact)
  have scan: "kv_faults w = [] \<and> records_agree w
      \<longrightarrow> getMappingByKeepName keepName w
            = (Inr (map_option snd (find (\<lambda>(pageId, m). keepNoteName m = keepName)
                                     (mappings (state_of w)))), w)"
    by (simp add: getMappingByKeepName_ok consistent_lookup_is_scan agree_consistent)
  have upsert: "kv_faults w = [] \<and> records_agree w \<and> notionPageId m \<noteq> []
      \<longrightarrow> fst (upsertMapping m w) = Inr ()
          \<and> records_agree (snd (upsertMapping m w))
          \<and> kv_mapping (snd (upsertMapping m w)) = (kv_mapping w)(notionPageId m \<mapsto> m)
          \<and> mappings (state_of (snd (upsertMapping m w)))
              = assign (mappings (state_of w)) (notionPageId m) m"
    by (simp add: upsertMapping_ok stored_agree stored_fields)
  have delete: "kv_faults w = [] \<and> records_agree w
      \<longrightarrow> fst (deleteMapping pageId w) = Inr ()
          \<and> records_agree (snd (deleteMapping pageId w))
          \<and> kv_mapping (snd (deleteMapping pageId w)) = (kv_mapping w)(pageId := None)
          \<and> mappings (state_of (snd (deleteMapping pageId w)))
              = filter (\<lambda>(k, _). k \<noteq> pageId) (mappings (state_of w))"
    by (simp add: deleteMapping_ok unstored_agree unstored_fields)
  have sequence: "kv_faults w = [] \<and> records_agree w \<and> list_all valid_op ops
      \<longrightarrow> records_agree (run_ops ops w)"
    using run_ops_agree [of w ops] by blast
  have reads: "getMappingByKeepName keepName v = (r, v')
      \<longrightarrow> kv_state v' = kv_state v \<and> kv_mapping v' = kv_mapping v"
    using getMappingByKeepName_frame [of keepName v r v'] by simp
  from same count exact scan upsert delete sequence reads show ?thesis by blast
qed

lemmas store_defs =
  three_stored_def three_mappings_def mapped_def doc1_mapping_def world_at_def
  store_consistent_def state_of_def find_page_id_def lookup_comparisons_def
  deleteMapping_def upsertMapping_def and_then_def kv_call_def getSyncState_def
  set_sync_state_def getMappingByKeepName_def getMapping_def kv_error_def
  getMappingByKeepName_counted_def records_agree_def

theorem lookup_scans_state_record_witness:
  "getMappingByKeepName_counted ''notes/b'' three_stored
     = ((Inr (Some (mapped ''docB'' ''notes/b'')), three_stored), 2)
   \<and> snd (getMappingByKeepName_counted ''notes/z'' three_stored) = 3
   \<and> getMappingByKeepName ''notes/z'' three_stored = (Inr None, three_stored)
   \<and> records_agree (snd (upsertMapping (mapped ''docD'' ''notes/d'') three_stored))
   \<and> kv_mapping (snd (upsertMapping (mapped ''docD'' ''notes/d'') three_stored)) ''docD''
       = Some (mapped ''docD'' ''notes/d'')
   \<and> kv_mapping (snd (upsertMapping (mapped ''docD'' ''notes/d'') three_stored)) ''docA''
       = Some (mapped ''docA'' ''notes/a'')
   \<and> map fst (mappings (state_of (snd (upsertMapping (mapped ''docD'' ''notes/d'') three_stored))))
       = [''docA'', ''docB'', ''docC'', ''docD'']
   \<and> records_agree (snd (deleteMapping ''docB'' three_stored))
   \<and> kv_mapping (snd (deleteMapping ''docB'' three_stored)) ''docB'' = None
   \<and> map fst (mappings (state_of (snd (deleteMapping ''docB'' three_stored))))
       = [''docA'', ''docC'']
   \<and> records_agree (run_ops three_ops three_stored)
   \<and> kv_state (snd (getMappingByKeepName ''notes/b'' (three_stored\<lparr>kv_faults := [False, True]\<rparr>)))
       = kv_state three_stored
   \<and> kv_mapping (snd (getMappingByKeepName ''notes/b'' (three_stored\<lparr>kv_faults := [False, True]\<rparr>)))
       = kv_mapping three_stored"
proof -
  have hs: "getSyncState three_stored
              = (Inr \<lparr>lastPolledAt = 0, mappings = three_mappings\<rparr>, three_stored)"
    by (simp add: store_defs cong: weak_congs)
  have ok: "kv_faults three_stored = [] \<and> records_agree three_stored"
    by (simp add: store_defs cong: weak_congs)
  have oku: "kv_faults three_stored = [] \<and> records_agree three_stored
             \<and> notionPageId (mapped ''docD'' ''notes/d'') \<noteq> []"
    using ok by (simp add: mapped_def)
  have oks: "kv_faults three_stored = [] \<and> records_agree three_stored
             \<and> list_all valid_op three_ops"
    using ok by (simp add: three_ops_def mapped_def)
  have st: "mappings (state_of three_stored) = three_mappings"
    by (simp add: three_stored_def state_of_def)
  have hr: "getMappingByKeepName ''notes/b'' (three_stored\<lparr>kv_faults := [False, True]\<rparr>)
              = (fst (getMappingByKeepName ''notes/b'' (three_stored\<lparr>kv_faults := [False, True]\<rparr>)),
                 snd (getMappingByKeepName ''notes/b'' (three_stored\<lparr>kv_faults := [False, True]\<rparr>)))"
    by simp
  have c1: "fst (getMappingByKeepName_counted ''notes/b'' three_stored)
              = (Inr (Some (mapped ''docB'' ''notes/b'')), three_stored)"
    using lookup_scans_state_record [where keepName = "''notes/b''" and w = three_stored,
        THEN conjunct1]
      lookup_scans_state_record [where keepName = "''notes/b''" and w = three_stored,
        THEN conjunct2, THEN conjunct2, THEN conjunct2, THEN conjunct1, rule_format, OF ok]
    by (simp add: st three_mappings_def mapped_def)
  have c2: "snd (getMappingByKeepName_counted ''notes/b'' three_stored) = 2"
    using lookup_scans_state_record [where keepName = "''notes/b''" and w = three_stored,
        THEN conjunct2, THEN conjunct1, rule_format, OF hs]
      lookup_scans_state_record [where keepName = "''notes/b''" and ms = three_mappings,
        THEN conjunct2, THEN conjunct2, THEN conjunct1]
    by (simp add: three_mappings_def mapped_def find_page_id_def)
  have c3: "snd (getMappingByKeepName_counted ''notes/z'' three_stored) = 3"
    using lookup_scans_state_record [where keepName = "''notes/z''" and w = three_stored,
        THEN conjunct2, THEN conjunct1, rule_format, OF hs]
      lookup_scans_state_record [where keepName = "''notes/z''" and ms = three_mappings,
        THEN conjunct2, THEN conjunct2, THEN conjunct1]
    by (simp add: three_mappings_def mapped_def find_page_id_def)
  have c4: "getMappingByKeepName ''notes/z'' three_stored = (Inr None, three_stored)"
    using lookup_scans_state_record [where keepName = "''notes/z''" and w = three_stored,
        THEN conjunct2, THEN conjunct2, THEN conjunct2, THEN conjunct1, rule_format, OF ok]
    by (simp add: st three_mappings_def mapped_def)
  note after_upsert = lookup_scans_state_record [where w = three_stored and m = "mapped ''docD'' ''notes/d''",
        THEN conjunct2, THEN conjunct2, THEN conjunct2, THEN conjunct2, THEN conjunct1,
        rule_format, OF oku]
  have c5: "records_agree (snd (upsertMapping (mapped ''docD'' ''notes/d'') three_stored))"
    using after_upsert by blast
  have c6: "kv_mapping (snd (upsertMapping (mapped ''docD'' ''notes/d'') three_stored)) ''docD''
              = Some (mapped ''docD'' ''notes/d'')"
    using after_upsert by (simp add: mapped_def)
  have c7: "kv_mapping (snd (upsertMapping (mapped ''docD'' ''notes/d'') three_stored)) ''docA''
              = Some (mapped ''docA'' ''notes/a'')"
    using after_upsert by (simp add: mapped_def three_stored_def three_mappings_def)
  have c8: "map fst (mappings (state_of (snd (upsertMapping (mapped ''docD'' ''notes/d'')
                                              three_stored))))
              = [''docA'', ''docB'', ''docC'', ''docD'']"
    using after_upsert by (simp add: st mapped_def three_mappings_def)
  note after_delete = lookup_scans_state_record [where w = three_stored and pageId = "''docB''",
        THEN conjunct2, THEN conjunct2, THEN conjunct2, THEN conjunct2, THEN conjunct2,
        THEN conjunct1, rule_format, OF ok]
  have c9: "records_agree (snd (deleteMapping ''docB'' three_stored))"
    using after_delete by blast
  have c10: "kv_mapping (snd (deleteMapping ''docB'' three_stored)) ''docB'' = None"
    using after_delete by simp
  have c11: "map fst (mappings (state_of (snd (deleteMapping ''docB'' three_stored))))
               = [''docA'', ''docC'']"
    using after_delete by (simp add: st mapped_def three_mappings_def)
  have c12: "records_agree (run_ops three_ops three_stored)"
    using lookup_scans_state_record [where w = three_stored and ops = three_ops,
        THEN conjunct2, THEN conjunct2, THEN conjunct2, THEN conjunct2, THEN conjunct2,
        THEN conjunct2, THEN conjunct1, rule_format, OF oks] .
  note after_read = lookup_scans_state_record [where keepName = "''notes/b''"
        and v = "three_stored\<lparr>kv_faults := [False, True]\<rparr>",
        THEN conjunct2, THEN conjunct2, THEN conjunct2, THEN conjunct2, THEN conjunct2,
        THEN conjunct2, THEN conjunct2, rule_format, OF hr]
  have c13: "kv_state (snd (getMappingByKeepName ''notes/b'' (three_stored\<lparr>kv_faults := [False, True]\<rparr>)))
       = kv_state three_stored"
    using after_read by simp
  have c14: "kv_mapping (snd (getMappingByKeepName ''notes/b'' (three_stored\<lparr>kv_faults := [False, True]\<rparr>)))
       = kv_mapping three_stored"
    using after_read by simp
  have c0: "getMappingByKeepName_counted ''notes/b'' three_stored
     = ((Inr (Some (mapped ''docB'' ''notes/b'')), three_stored), 2)"
    using c1 c2 by (simp add: prod_eq_iff)
  from c0 c3 c4 c5 c6 c7 c8 c9 c10 c11 c12 c13 c14 show ?thesis by blast
qed

text \<open>
  The claim as stated fails on each of its parts. A lookup that misses in a store of
  three mappings compares three names, one per mapping. The state record is not written
  together with the per-page record: when the second KV call of \<^verbatim>\<open>upsertMapping\<close> throws,
  the per-page record is stored and the state record is not, the two no longer agree, and
  the lookup by name does not find the mapping. And when the KV calls of two upserts take
  turns, with no KV call failing, the state record written last lacks the entry of the
  other page: both per-page records are stored, the two no longer agree, and the lookup
  by name does not find the first mapping.
\<close>

theorem lookup_scans_state_record_counterexample:
  "snd (getMappingByKeepName_counted ''notes/z'' three_stored) = 3
   \<and> length (mappings (state_of three_stored)) = 3
   \<and> fst (upsertMapping (doc1_mapping Notion) ((world_at 0)\<lparr>kv_faults := [False, True]\<rparr>))
       = Inl ''KV request failed''
   \<and> kv_mapping (snd (upsertMapping (doc1_mapping Notion)
                         ((world_at 0)\<lparr>kv_faults := [False, True]\<rparr>))) ''doc1''
       = Some (doc1_mapping Notion)
   \<and> kv_state (snd (upsertMapping (doc1_mapping Notion)
                       ((world_at 0)\<lparr>kv_faults := [False, True]\<rparr>))) = None
   \<and> fst (getMappingByKeepName ''notes/1''
            (snd (upsertMapping (doc1_mapping Notion)
                    ((world_at 0)\<lparr>kv_faults := [False, True]\<rparr>)))) = Inr None
   \<and> \<not> records_agree (snd (upsertMapping (doc1_mapping Notion)
                               ((world_at 0)\<lparr>kv_faults := [False, True]\<rparr>)))
   \<and> fst (interleaved_upserts (mapped ''docD'' ''notes/d'') (mapped ''docE'' ''notes/e'')
            three_stored) = Inr ()
   \<and> kv_mapping (snd (interleaved_upserts (mapped ''docD'' ''notes/d'')
                         (mapped ''docE'' ''notes/e'') three_stored)) ''docD''
       = Some (mapped ''docD'' ''notes/d'')
   \<and> map fst (mappings (state_of (snd (interleaved_upserts (mapped ''docD'' ''notes/d'')
                                          (mapped ''docE'' ''notes/e'') three_stored))))
       = [''docA'', ''docB'', ''docC'', ''docE'']
   \<and> \<not> records_agree (snd (interleaved_upserts (mapped ''docD'' ''notes/d'')
                               (mapped ''docE'' ''notes/e'') three_stored))
   \<and> fst (getMappingByKeepName ''notes/d''
            (snd (interleaved_upserts (mapped ''docD'' ''notes/d'')
                    (mapped ''docE'' ''notes/e'') three_stored))) = Inr None"
  by (simp add: store_defs interleaved_upserts_def set_mapping_record_def set_state_entry_def
        fun_eq_iff cong: weak_congs)

end
